theory Spec2Isabelle
  imports Main "HOL-Library.AList"
begin

section \<open>Python values and the library functions that cli.py calls\<close>

text \<open>
  The exceptions that can leave the functions of cli.py. A function that can raise returns
  \<open>error + 'a\<close>, with \<open>Inl\<close> for the exception.
  Strings are lists of 8-bit characters (code points below 256). Messages printed to the
  diagnostic stream are not part of the model.
\<close>

datatype error =
    FileNotFoundError
  | IndexError
  | ValueError
  | CalledProcessError int
  | OSError

subsection \<open>str methods\<close>

fun startswith :: "string \<Rightarrow> string \<Rightarrow> bool" where
  "startswith s [] = True"
| "startswith [] (p # ps) = False"
| "startswith (c # cs) (p # ps) = (c = p \<and> startswith cs ps)"

text \<open>\<open>needle in hay\<close> for strings.\<close>

fun str_in :: "string \<Rightarrow> string \<Rightarrow> bool" where
  "str_in needle [] = (needle = [])"
| "str_in needle (c # cs) = (startswith (c # cs) needle \<or> str_in needle cs)"

text \<open>\<open>line[-1]\<close>: the last character, IndexError on the empty string.\<close>

definition last_char :: "string \<Rightarrow> error + char" where
  "last_char s = (case s of [] \<Rightarrow> Inl IndexError | _ # _ \<Rightarrow> Inr (last s))"

text \<open>\<open>s.count("/")\<close>.\<close>

definition count_sep :: "string \<Rightarrow> nat" where
  "count_sep s = length (filter (\<lambda>c. c = CHR ''/'') s)"

text \<open>
  \<open>str.splitlines()\<close>: the line boundaries below 256 are LF, CR, CR LF, VT, FF, FS, GS, RS
  and NEL; the boundary is dropped, and a text that ends in a boundary has no empty last line.
\<close>

definition is_linebreak :: "char \<Rightarrow> bool" where
  "is_linebreak c = (c \<in> set [CHR 0x0A, CHR 0x0D, CHR 0x0B, CHR 0x0C,
                               CHR 0x1C, CHR 0x1D, CHR 0x1E, CHR 0x85])"

fun splitlines_from :: "string \<Rightarrow> string \<Rightarrow> string list" where
  "splitlines_from cur [] = (if cur = [] then [] else [cur])"
| "splitlines_from cur [c] =
     (if is_linebreak c then [cur] else [cur @ [c]])"
| "splitlines_from cur (c # d # cs) =
     (if c = CHR 0x0D \<and> d = CHR 0x0A then cur # splitlines_from [] cs
      else if is_linebreak c then cur # splitlines_from [] (d # cs)
      else splitlines_from (cur @ [c]) (d # cs))"

definition splitlines :: "string \<Rightarrow> string list" where
  "splitlines s = splitlines_from [] s"

text \<open>\<open>s.split("/")\<close> and \<open>"/".join(parts)\<close>.\<close>

fun split_sep_from :: "string \<Rightarrow> string \<Rightarrow> string list" where
  "split_sep_from cur [] = [cur]"
| "split_sep_from cur (c # cs) =
     (if c = CHR ''/'' then cur # split_sep_from [] cs else split_sep_from (cur @ [c]) cs)"

definition split_sep :: "string \<Rightarrow> string list" where
  "split_sep s = split_sep_from [] s"

fun join_sep :: "string list \<Rightarrow> string" where
  "join_sep [] = []"
| "join_sep [x] = x"
| "join_sep (x # y # ys) = x @ ''/'' @ join_sep (y # ys)"

subsection \<open>posixpath\<close>

text \<open>\<open>os.path.basename\<close>: what follows the last separator.\<close>

definition basename :: "string \<Rightarrow> string" where
  "basename p = rev (takeWhile (\<lambda>c. c \<noteq> CHR ''/'') (rev p))"

text \<open>
  \<open>os.path.dirname\<close>: the head up to and including the last separator, with its trailing
  separators stripped unless it consists of separators only.
\<close>

definition dirname :: "string \<Rightarrow> string" where
  "dirname p =
     (let head = rev (dropWhile (\<lambda>c. c \<noteq> CHR ''/'') (rev p))
      in if head \<noteq> [] \<and> \<not> list_all (\<lambda>c. c = CHR ''/'') head
         then rev (dropWhile (\<lambda>c. c = CHR ''/'') (rev head))
         else head)"

text \<open>
  \<open>os.path.normpath\<close>: empty and \<open>.\<close> components are dropped, \<open>..\<close> removes the component
  before it (it is kept at the start of a relative path and after another \<open>..\<close>, and dropped
  at the root); exactly two leading separators are kept, any other number is one.
\<close>

fun norm_comps :: "bool \<Rightarrow> string list \<Rightarrow> string list \<Rightarrow> string list" where
  "norm_comps rooted new_comps [] = new_comps"
| "norm_comps rooted new_comps (cmp # comps) =
     (if cmp = [] \<or> cmp = ''.'' then norm_comps rooted new_comps comps
      else if cmp \<noteq> ''..'' \<or> (\<not> rooted \<and> new_comps = [])
                \<or> (new_comps \<noteq> [] \<and> last new_comps = ''..'')
        then norm_comps rooted (new_comps @ [cmp]) comps
      else if new_comps \<noteq> [] then norm_comps rooted (butlast new_comps) comps
      else norm_comps rooted new_comps comps)"

definition normpath :: "string \<Rightarrow> string" where
  "normpath path =
     (if path = [] then ''.''
      else
        let initial_slashes =
              (if startswith path ''/''
               then (if startswith path ''//'' \<and> \<not> startswith path ''///'' then 2 else 1)
               else (0::nat));
            joined = join_sep (norm_comps (initial_slashes \<noteq> 0) [] (split_sep path));
            path' = replicate initial_slashes CHR ''/'' @ joined
        in if path' = [] then ''.'' else path')"

text \<open>\<open>os.path.join\<close> of two paths and \<open>os.path.abspath\<close> in the working directory \<open>cwd\<close>.\<close>

definition path_join :: "string \<Rightarrow> string \<Rightarrow> string" where
  "path_join a b =
     (if startswith b ''/'' then b
      else if a = [] \<or> last a = CHR ''/'' then a @ b
      else a @ ''/'' @ b)"

definition abspath :: "string \<Rightarrow> string \<Rightarrow> string" where
  "abspath cwd path =
     normpath (if startswith path ''/'' then path else path_join cwd path)"

text \<open>
  \<open>os.path.relpath(path, start)\<close>: the components after the common prefix of the two
  absolute paths, behind one \<open>..\<close> for each remaining component of \<open>start\<close>; \<open>.\<close> when
  nothing is left. An empty \<open>path\<close> raises ValueError.
\<close>

fun common_prefix_len :: "string list \<Rightarrow> string list \<Rightarrow> nat" where
  "common_prefix_len (x # xs) (y # ys) = (if x = y then Suc (common_prefix_len xs ys) else 0)"
| "common_prefix_len _ _ = 0"

definition relpath :: "string \<Rightarrow> string \<Rightarrow> string \<Rightarrow> error + string" where
  "relpath cwd path start =
     (if path = [] then Inl ValueError
      else
        let start_list = filter (\<lambda>x. x \<noteq> []) (split_sep (abspath cwd start));
            path_list = filter (\<lambda>x. x \<noteq> []) (split_sep (abspath cwd path));
            i = common_prefix_len start_list path_list;
            rel_list = replicate (length start_list - i) ''..'' @ drop i path_list
        in if rel_list = [] then Inr ''.'' else Inr (join_sep rel_list))"

subsection \<open>shlex.split\<close>

text \<open>
  \<open>shlex.split(s)\<close>: the POSIX-mode lexer with \<open>whitespace_split\<close> and no comment
  characters. The lexer is in the whitespace state, inside a word, inside a quotation opened
  by a quote character, or behind a backslash (remembering the state to return to). An open
  quotation or a trailing backslash at the end of the input raises ValueError.
\<close>

datatype lex_state = InSpace | InWord | InQuote char | Escaped lex_state

definition is_shlex_space :: "char \<Rightarrow> bool" where
  "is_shlex_space c = (c \<in> set [CHR '' '', CHR 0x09, CHR 0x0D, CHR 0x0A])"

definition is_shlex_quote :: "char \<Rightarrow> bool" where
  "is_shlex_quote c = (c = CHR 0x27 \<or> c = CHR 0x22)"

definition emit_token :: "string \<Rightarrow> bool \<Rightarrow> string list" where
  "emit_token token quoted = (if token \<noteq> [] \<or> quoted then [token] else [])"

fun read_tokens :: "lex_state \<Rightarrow> string \<Rightarrow> bool \<Rightarrow> string \<Rightarrow> error + string list" where
  "read_tokens InSpace token quoted [] = Inr (emit_token token quoted)"
| "read_tokens InWord token quoted [] = Inr (emit_token token quoted)"
| "read_tokens (InQuote q) token quoted [] = Inl ValueError"
| "read_tokens (Escaped back) token quoted [] = Inl ValueError"
| "read_tokens InSpace token quoted (c # cs) =
     (if is_shlex_space c then
        (if token \<noteq> [] \<or> quoted
         then map_sum id (\<lambda>ts. token # ts) (read_tokens InSpace [] False cs)
         else read_tokens InSpace token quoted cs)
      else if c = CHR 0x5C then read_tokens (Escaped InWord) token quoted cs
      else if is_shlex_quote c then read_tokens (InQuote c) token quoted cs
      else read_tokens InWord [c] quoted cs)"
| "read_tokens (InQuote q) token quoted (c # cs) =
     (if c = q then read_tokens InWord token True cs
      else if c = CHR 0x5C \<and> q = CHR 0x22 then read_tokens (Escaped (InQuote q)) token True cs
      else read_tokens (InQuote q) (token @ [c]) True cs)"
| "read_tokens (Escaped back) token quoted (c # cs) =
     (let token' =
            (case back of
               InQuote q \<Rightarrow> if c \<noteq> CHR 0x5C \<and> c \<noteq> q then token @ [CHR 0x5C] else token
             | _ \<Rightarrow> token)
      in read_tokens back (token' @ [c]) quoted cs)"
| "read_tokens InWord token quoted (c # cs) =
     (if is_shlex_space c then
        (if token \<noteq> [] \<or> quoted
         then map_sum id (\<lambda>ts. token # ts) (read_tokens InSpace [] False cs)
         else read_tokens InSpace token quoted cs)
      else if is_shlex_quote c then read_tokens (InQuote c) token quoted cs
      else if c = CHR 0x5C then read_tokens (Escaped InWord) token quoted cs
      else read_tokens InWord (token @ [c]) quoted cs)"

definition shlex_split :: "string \<Rightarrow> error + string list" where
  "shlex_split s = read_tokens InSpace [] False s"

subsection \<open>int\<close>

text \<open>
  \<open>int(s)\<close> on a string of decimal digits with an optional sign; a string without a digit
  raises ValueError. The source calls it on the index group only, one character that is a
  digit or a plus sign.
\<close>

definition is_digit :: "char \<Rightarrow> bool" where
  "is_digit c = (c \<in> set ''0123456789'')"

definition digits_value :: "string \<Rightarrow> int" where
  "digits_value ds = foldl (\<lambda>acc c. 10 * acc + (int (of_char c) - 48)) 0 ds"

definition py_int :: "string \<Rightarrow> error + int" where
  "py_int s =
     (let (sign, ds) =
            (case s of
               c # cs \<Rightarrow> if c = CHR ''+'' then (1, cs) else if c = CHR ''-'' then (-1, cs)
                         else (1::int, s)
             | [] \<Rightarrow> (1, s))
      in if ds \<noteq> [] \<and> list_all is_digit ds then Inr (sign * digits_value ds)
         else Inl ValueError)"

subsection \<open>re.search\<close>

text \<open>
  The regular expressions of cli.py use literals, three character classes, \<open>+\<close> and \<open>*\<close>
  on a class, named groups and \<open>$\<close>. A match attempt returns every way to match, in the
  order in which the backtracking matcher tries them (greedy: the longest repetition first),
  each with the groups captured and the rest of the input.
\<close>

datatype char_class =
    AnyChar    \<comment> \<open>\<open>.\<close>: anything but a newline\<close>
  | ModeChar   \<comment> \<open>\<open>[a-zA-Z0-9\-\_]\<close>\<close>
  | IdxChar    \<comment> \<open>\<open>[\d+]\<close>: one digit or a plus sign\<close>

definition in_class :: "char_class \<Rightarrow> char \<Rightarrow> bool" where
  "in_class cls c =
     (case cls of
        AnyChar \<Rightarrow> c \<noteq> CHR 0x0A
      | ModeChar \<Rightarrow>
          c \<in> set ''abcdefghijklmnopqrstuvwxyzABCDEFGHIJKLMNOPQRSTUVWXYZ0123456789-_''
      | IdxChar \<Rightarrow> is_digit c \<or> c = CHR ''+'')"

datatype regex =
    Lit string
  | One char_class
  | Plus char_class
  | Star char_class
  | Group string regex
  | Seq regex regex
  | EndOfString

type_synonym groups = "(string \<times> string) list"

fun rx_match :: "regex \<Rightarrow> groups \<Rightarrow> string \<Rightarrow> (groups \<times> string) list" where
  "rx_match (Lit l) gs s = (if startswith s l then [(gs, drop (length l) s)] else [])"
| "rx_match (One cls) gs s =
     (case s of [] \<Rightarrow> [] | c # cs \<Rightarrow> if in_class cls c then [(gs, cs)] else [])"
| "rx_match (Plus cls) gs s =
     map (\<lambda>k. (gs, drop k s)) (rev [1 ..< Suc (length (takeWhile (in_class cls) s))])"
| "rx_match (Star cls) gs s =
     map (\<lambda>k. (gs, drop k s)) (rev [0 ..< Suc (length (takeWhile (in_class cls) s))])"
| "rx_match (Group name r) gs s =
     map (\<lambda>(gs', rest). (AList.update name (take (length s - length rest) s) gs', rest))
         (rx_match r gs s)"
| "rx_match (Seq r1 r2) gs s =
     concat (map (\<lambda>(gs', rest). rx_match r2 gs' rest) (rx_match r1 gs s))"
| "rx_match EndOfString gs s = (if s = [] \<or> s = [CHR 0x0A] then [(gs, s)] else [])"

text \<open>\<open>re.search\<close>: the first match at the leftmost position that has one.\<close>

fun re_search :: "regex \<Rightarrow> string \<Rightarrow> groups option" where
  "re_search r [] = (case rx_match r [] [] of [] \<Rightarrow> None | (gs, _) # _ \<Rightarrow> Some gs)"
| "re_search r (c # cs) =
     (case rx_match r [] (c # cs) of [] \<Rightarrow> re_search r cs | (gs, _) # _ \<Rightarrow> Some gs)"

text \<open>\<open>match.group(name)\<close>; every group of the three patterns takes part in every match.\<close>

definition group :: "groups \<Rightarrow> string \<Rightarrow> string" where
  "group m name = (case map_of m name of Some s \<Rightarrow> s | None \<Rightarrow> [])"

section \<open>The process environment\<close>

text \<open>
  What cli.py reads from outside: the two environment variables, the directory the process
  starts in, \<open>shutil.which\<close> (by working directory and name), \<open>os.path.isdir\<close>, whether
  \<open>os.chdir\<close> to a directory succeeds, and the wrapped tool. A child process is a function
  of the calls made so far, the working directory and the argument vector; it gives the
  completed process, or nothing when the child cannot be started.
\<close>

record completed =
  returncode :: int
  stdout :: string
  stderr :: string

type_synonym invocation = "string \<times> string list"

record world =
  environ_exec :: "string option"
  environ_skip :: "string option"
  initwd :: string
  which :: "string \<Rightarrow> string \<Rightarrow> string option"
  isdir :: "string \<Rightarrow> bool"
  chdir_ok :: "string \<Rightarrow> bool"
  spawn :: "invocation list \<Rightarrow> string \<Rightarrow> string list \<Rightarrow> completed option"

text \<open>The parsed options that the modes read.\<close>

record args =
  mode :: string
  mode_require :: bool
  verbose :: nat

section \<open>ModeBase\<close>

text \<open>
  The fields of a mode object that its methods change: \<open>_exec\<close> and \<open>_modes\<close> (a dict from
  mode name to a dict from index to argument list; dicts are association lists in insertion
  order), and the working directory of the process. \<open>calls\<close> lists the child processes
  started so far and \<open>recorded\<close> the exit codes folded into the return code so far; the
  source has neither, they make its effects visible.
\<close>

type_synonym command_sequence = "(int \<times> string list) list"

record mode_state =
  exec :: string
  modes :: "(string \<times> command_sequence) list"
  cwd :: string
  calls :: "invocation list"
  recorded :: "int list"

definition init_state :: "world \<Rightarrow> mode_state" where
  "init_state w = \<lparr>exec = [], modes = [], cwd = initwd w, calls = [], recorded = []\<rparr>"

text \<open>\<open>self._skip\<close> as a condition: the variable is set and not empty.\<close>

definition skip :: "world \<Rightarrow> bool" where
  "skip w = (case environ_skip w of None \<Rightarrow> False | Some v \<Rightarrow> v \<noteq> [])"

definition reset :: "mode_state \<Rightarrow> mode_state" where
  "reset st = st\<lparr>exec := [], modes := []\<rparr>"

type_synonym handler = "groups \<Rightarrow> mode_state \<Rightarrow> error + mode_state"

definition sentinel_exec_pattern :: regex where
  "sentinel_exec_pattern =
     Seq (Lit ''__RUFFWRAP_EXEC__'')
       (Seq (Group ''EXEC'' (Plus AnyChar)) (Seq (Lit '','') EndOfString))"

definition sentinel_exec :: handler where
  "sentinel_exec m st = Inr (st\<lparr>exec := group m ''EXEC''\<rparr>)"

text \<open>\<open>ModeBase.ruff\<close>: the command array for the arguments \<open>cmdargs\<close>.\<close>

definition ruff :: "world \<Rightarrow> mode_state \<Rightarrow> string list \<Rightarrow> error + string list" where
  "ruff w st cmdargs =
     (let exec0 = (if skip w then environ_exec w
                   else if exec st \<noteq> [] then Some (exec st) else None);
          exec1 =
            (case exec0 of
               Some e \<Rightarrow> Some e
             | None \<Rightarrow>
                 (case which w (cwd st) ''ruff'' of
                    Some e \<Rightarrow> Some e
                  | None \<Rightarrow>
                      (case which w (cwd st) ''uvx'' of
                         Some e \<Rightarrow> if e \<noteq> [] then Some (e @ '' ruff'') else Some e
                       | None \<Rightarrow> None)))
      in case exec1 of
           None \<Rightarrow> Inl FileNotFoundError
         | Some e \<Rightarrow>
             (case shlex_split e of
                Inl err \<Rightarrow> Inl err
              | Inr cmd \<Rightarrow> Inr (cmd @ cmdargs)))"

text \<open>Starting a child process in the current directory and waiting for it.\<close>

definition call :: "world \<Rightarrow> mode_state \<Rightarrow> string list \<Rightarrow> error + (completed \<times> mode_state)" where
  "call w st argv =
     (case spawn w (calls st) (cwd st) argv of
        None \<Rightarrow> Inl OSError
      | Some p \<Rightarrow> Inr (p, st\<lparr>calls := calls st @ [(cwd st, argv)]\<rparr>))"

text \<open>The loops of \<open>process_sentinels\<close>: over the rules for one line, and over the lines.\<close>

fun match_line :: "(regex \<times> handler) list \<Rightarrow> string \<Rightarrow> mode_state \<Rightarrow> error + mode_state" where
  "match_line [] line st = Inr st"
| "match_line ((pattern, func) # rest) line st =
     (case re_search pattern line of
        Some m \<Rightarrow> func m st
      | None \<Rightarrow> match_line rest line st)"

fun scan_lines ::
  "(regex \<times> handler) list \<Rightarrow> bool \<Rightarrow> string list \<Rightarrow> mode_state \<Rightarrow> error + mode_state" where
  "scan_lines sentinels_map looking_for_sentinel_header [] st = Inr st"
| "scan_lines sentinels_map looking_for_sentinel_header (line # rest) st =
     (if looking_for_sentinel_header \<and> \<not> startswith line ''linter.builtins = [''
      then scan_lines sentinels_map True rest st
      else
        (case last_char line of
           Inl e \<Rightarrow> Inl e
         | Inr c \<Rightarrow>
             if c = CHR '']'' then Inr st
             else
               (case match_line sentinels_map line st of
                  Inl e \<Rightarrow> Inl e
                | Inr st' \<Rightarrow> scan_lines sentinels_map False rest st')))"

definition show_settings_args :: "string list" where
  "show_settings_args =
     [''check'', ''--show-settings'',
      ''--config'', ''include = [ '' @ [CHR 0x27] @ ''*'' @ [CHR 0x27] @ '', ''
                     @ [CHR 0x27] @ ''.*'' @ [CHR 0x27] @ '' ]'',
      ''--config'', ''exclude = [ '' @ [CHR 0x27] @ ''*/*'' @ [CHR 0x27] @ '' ]'',
      ''--config'', ''cache-dir = '' @ [CHR 0x27] @ ''/dev/null'' @ [CHR 0x27],
      ''--no-cache'']"

definition process_sentinels ::
  "world \<Rightarrow> (regex \<times> handler) list \<Rightarrow> mode_state \<Rightarrow> error + mode_state" where
  "process_sentinels w sentinels_map st =
     (case ruff w st show_settings_args of
        Inl e \<Rightarrow> Inl e
      | Inr argv \<Rightarrow>
          (case call w st argv of
             Inl e \<Rightarrow> Inl e
           | Inr (result, st') \<Rightarrow>
               if returncode result \<noteq> 0
               then (if str_in ''No files found under the given path'' (stderr result)
                     then Inr st'
                     else Inl (CalledProcessError (returncode result)))
               else scan_lines sentinels_map True (splitlines (stdout result)) st'))"

section \<open>BatchMode\<close>

text \<open>
  The batch mode of cli.py: its sentinel rules, the grouping of the paths and the run over the
  directories. \<open>SingleMode\<close> and \<open>main\<close> are not part of this development.
\<close>

subsection \<open>Sentinel rules\<close>

definition sentinel_cmd_pattern :: regex where
  "sentinel_cmd_pattern =
     Seq (Lit ''__RUFFWRAP_MODE_'')
       (Seq (Group ''MODE'' (Plus ModeChar))
         (Seq (Lit ''_CMD_'')
           (Seq (Group ''IDX'' (One IdxChar))
             (Seq (Lit ''__'')
               (Seq (Group ''ARGS'' (Star AnyChar))
                 (Seq (Lit '','') EndOfString))))))"

definition sentinel_cmd :: handler where
  "sentinel_cmd m st =
     (let name = group m ''MODE''
      in case py_int (group m ''IDX'') of
           Inl e \<Rightarrow> Inl e
         | Inr idx \<Rightarrow>
             (case shlex_split (group m ''ARGS'') of
                Inl e \<Rightarrow> Inl e
              | Inr cmdargs \<Rightarrow>
                  let cmds = (case map_of (modes st) name of None \<Rightarrow> [] | Some d \<Rightarrow> d)
                  in Inr (st\<lparr>modes :=
                            AList.update name (AList.update idx cmdargs cmds) (modes st)\<rparr>)))"

text \<open>
  The default definitions: a list of command strings, each split by \<open>shlex.split\<close> and
  keyed by its position.
\<close>

fun split_all :: "string list \<Rightarrow> error + string list list" where
  "split_all [] = Inr []"
| "split_all (cmd_str # rest) =
     (case shlex_split cmd_str of
        Inl e \<Rightarrow> Inl e
      | Inr cmd \<Rightarrow> map_sum id (\<lambda>cmds. cmd # cmds) (split_all rest))"

definition enumerate_split :: "string list \<Rightarrow> error + command_sequence" where
  "enumerate_split default_definition =
     map_sum id (\<lambda>cmds. zip (map int [0 ..< length cmds]) cmds) (split_all default_definition)"

definition get_hook_mode_default_definition :: "string \<Rightarrow> error + command_sequence" where
  "get_hook_mode_default_definition fix_arg =
     enumerate_split
       [''check '' @ fix_arg,
        ''format'',
        ''check --fix-only --select RUF100 --quiet'',
        ''check --add-noqa --quiet'',
        ''format --quiet'',
        ''check --fix-only --select RUF100 --quiet'',
        ''check --add-noqa --quiet'',
        ''check --exit-zero --no-fix --output-format=json-lines'',
        ''format --quiet --check'']"

definition get_hook_fix_mode_default_definition :: "error + command_sequence" where
  "get_hook_fix_mode_default_definition = get_hook_mode_default_definition ''--fix''"

definition get_verify_mode_default_definition :: "error + command_sequence" where
  "get_verify_mode_default_definition =
     enumerate_split
       [''check --no-fix --no-cache --config \"cache-dir = '' @ [CHR 0x27] @ ''/dev/null''
          @ [CHR 0x27] @ ''\"'',
        ''format --check --no-cache --config \"cache-dir = '' @ [CHR 0x27] @ ''/dev/null''
          @ [CHR 0x27] @ ''\"'']"

definition get_enroll_mode_default_definition :: "error + command_sequence" where
  "get_enroll_mode_default_definition =
     enumerate_split
       [''format'',
        ''check --fix-only --select PLR2044 --quiet'',
        ''check --add-noqa'',
        ''format --quiet'',
        ''check --fix-only --select RUF100 --quiet'',
        ''check --add-noqa --quiet'',
        ''format --quiet'',
        ''check --add-noqa --quiet'',
        ''format --quiet'',
        ''check --no-fix --quiet'']"

definition mode_default_definition_funcs :: "(string \<times> (error + command_sequence)) list" where
  "mode_default_definition_funcs =
     [(''hook'', get_hook_mode_default_definition ''--no-fix''),
      (''hook-fix'', get_hook_fix_mode_default_definition),
      (''verify'', get_verify_mode_default_definition),
      (''enroll'', get_enroll_mode_default_definition)]"

definition sentinel_default_definition_pattern :: regex where
  "sentinel_default_definition_pattern =
     Seq (Lit ''__RUFFWRAP_MODE_'')
       (Seq (Group ''MODE'' (Plus ModeChar))
         (Seq (Lit ''_DEFAULT_DEFINITION__,'') EndOfString))"

definition sentinel_default_definition :: handler where
  "sentinel_default_definition m st =
     (let name = group m ''MODE''
      in case map_of mode_default_definition_funcs name of
           None \<Rightarrow> Inr (st\<lparr>modes := AList.update name [] (modes st)\<rparr>)
         | Some def_func \<Rightarrow>
             (case def_func of
                Inl e \<Rightarrow> Inl e
              | Inr cmds \<Rightarrow> Inr (st\<lparr>modes := AList.update name cmds (modes st)\<rparr>)))"

text \<open>The rules in the order of \<open>_sentinels_map\<close>: the base class's rule, then the two added.\<close>

definition sentinels_map :: "(regex \<times> handler) list" where
  "sentinels_map =
     [(sentinel_exec_pattern, sentinel_exec),
      (sentinel_default_definition_pattern, sentinel_default_definition),
      (sentinel_cmd_pattern, sentinel_cmd)]"

subsection \<open>Grouping the paths\<close>

type_synonym files_by_depth = "(nat \<times> (string \<times> string set) list) list"

fun get_files_by_depth_loop ::
  "world \<Rightarrow> string \<Rightarrow> string list \<Rightarrow> files_by_depth \<Rightarrow> error + files_by_depth" where
  "get_files_by_depth_loop w wd [] files_by_depth = Inr files_by_depth"
| "get_files_by_depth_loop w wd (path # paths) files_by_depth =
     (if isdir w path then get_files_by_depth_loop w wd paths files_by_depth
      else
        let abs_path = abspath wd path
        in case relpath wd (dirname abs_path) (initwd w) of
             Inl e \<Rightarrow> Inl e
           | Inr file_dir \<Rightarrow>
               let depth = count_sep file_dir;
                   dirs = (case map_of files_by_depth depth of None \<Rightarrow> [] | Some d \<Rightarrow> d);
                   files = (case map_of dirs file_dir of None \<Rightarrow> {} | Some f \<Rightarrow> f)
               in get_files_by_depth_loop w wd paths
                    (AList.update depth (AList.update file_dir (insert abs_path files) dirs)
                       files_by_depth))"

definition get_files_by_depth :: "world \<Rightarrow> string \<Rightarrow> string list \<Rightarrow> error + files_by_depth" where
  "get_files_by_depth w wd paths = get_files_by_depth_loop w wd paths []"

text \<open>\<open>args.index("--")\<close>: the first position of the token, if there is one.\<close>

fun list_index :: "'a \<Rightarrow> 'a list \<Rightarrow> nat option" where
  "list_index x [] = None"
| "list_index x (y # ys) = (if y = x then Some 0 else map_option Suc (list_index x ys))"

definition get_paths_from_args :: "string list \<Rightarrow> bool \<times> string list" where
  "get_paths_from_args as =
     (case list_index ''--'' as of
        Some filelist_delim \<Rightarrow>
          if filelist_delim > 0 then (False, take filelist_delim as)
          else (True, drop (1 + filelist_delim) as)
      | None \<Rightarrow> (True, as))"

subsection \<open>The run\<close>

text \<open>
  The commands of one mode, in the order of \<open>sorted(mode.items())\<close>, each on the filtered
  paths. A command that exits non-zero ends the loop with its exit code (the
  CalledProcessError that \<open>run\<close> catches); any other exception leaves \<open>run\<close>.
\<close>

fun run_cmds ::
  "world \<Rightarrow> command_sequence \<Rightarrow> string list \<Rightarrow> mode_state \<Rightarrow> error + (int option \<times> mode_state)" where
  "run_cmds w [] paths st = Inr (None, st)"
| "run_cmds w ((idx, cmd) # rest) paths st =
     (case ruff w st (cmd @ paths) of
        Inl e \<Rightarrow> Inl e
      | Inr argv \<Rightarrow>
          (case call w st argv of
             Inl e \<Rightarrow> Inl e
           | Inr (result, st') \<Rightarrow>
               if returncode result \<noteq> 0 then Inr (Some (returncode result), st')
               else run_cmds w rest paths st'))"

text \<open>
  The body of the loop over the directories: it gives the new return code and state, or the
  exception that ends the run. A failing \<open>os.chdir\<close> is an OSError. \<open>_cwd_rel_str\<close> is
  only printed and is left out.
\<close>

definition process_bucket ::
  "world \<Rightarrow> args \<Rightarrow> string \<times> string set \<Rightarrow> int \<Rightarrow> mode_state \<Rightarrow> error + (int \<times> mode_state)" where
  "process_bucket w a bucket rc st =
     (let dir_path = fst bucket; abs_paths = snd bucket;
          abs_dir_path = initwd w @ ''/'' @ dir_path
      in if \<not> chdir_ok w abs_dir_path then Inl OSError
         else
           (case process_sentinels w sentinels_map (reset (st\<lparr>cwd := abs_dir_path\<rparr>)) of
              Inl e \<Rightarrow> Inl e
            | Inr st1 \<Rightarrow>
                (case map_of (modes st1) (mode a) of
                   None \<Rightarrow>
                     if mode_require a
                     then Inr (max 1 rc, st1\<lparr>recorded := recorded st1 @ [1]\<rparr>)
                     else Inr (rc, st1)
                 | Some cmds \<Rightarrow>
                     (case ruff w st1 [''check'', ''--show-files''] of
                        Inl e \<Rightarrow> Inl e
                      | Inr argv \<Rightarrow>
                          (case call w st1 argv of
                             Inl e \<Rightarrow> Inl e
                           | Inr (listing, st2) \<Rightarrow>
                               if returncode listing \<noteq> 0
                               then Inl (CalledProcessError (returncode listing))
                               else
                                 let paths = map basename
                                       (filter (\<lambda>file. file \<in> abs_paths)
                                          (splitlines (stdout listing)))
                                 in if paths = [] then Inr (rc, st2)
                                    else
                                      (case run_cmds w (sort_key fst cmds) paths st2 of
                                         Inl e \<Rightarrow> Inl e
                                       | Inr (None, st3) \<Rightarrow> Inr (rc, st3)
                                       | Inr (Some code, st3) \<Rightarrow>
                                           Inr (max code rc,
                                                st3\<lparr>recorded := recorded st3 @ [code]\<rparr>)))))))"

fun run_buckets ::
  "world \<Rightarrow> args \<Rightarrow> (string \<times> string set) list \<Rightarrow> int \<Rightarrow> mode_state \<Rightarrow> error + (int \<times> mode_state)" where
  "run_buckets w a [] rc st = Inr (rc, st)"
| "run_buckets w a (bucket # rest) rc st =
     (case process_bucket w a bucket rc st of
        Inl e \<Rightarrow> Inl e
      | Inr (rc', st') \<Rightarrow> run_buckets w a rest rc' st')"

text \<open>
  The directories in the order in which \<open>run\<close> visits them: the depths in decreasing order
  (\<open>sorted(..., reverse=True)\<close>, a stable sort), each depth's directories in insertion order.
\<close>

definition buckets_in_order :: "files_by_depth \<Rightarrow> (string \<times> string set) list" where
  "buckets_in_order files_by_depth =
     concat (map snd (sort_key (\<lambda>entry. - int (fst entry)) files_by_depth))"

definition run :: "world \<Rightarrow> args \<Rightarrow> string list \<Rightarrow> error + (int \<times> mode_state)" where
  "run w a as =
     (if skip w then Inr (0, init_state w)
      else
        (case get_paths_from_args as of
           (False, bad) \<Rightarrow> Inr (3, init_state w)
         | (True, paths) \<Rightarrow>
             (case get_files_by_depth w (cwd (init_state w)) paths of
                Inl e \<Rightarrow> Inl e
              | Inr files_by_depth \<Rightarrow>
                  run_buckets w a (buckets_in_order files_by_depth) 0 (init_state w))))"

section \<open>Predicates used in the proofs\<close>

text \<open>
  \<open>frame st st'\<close>: the working directory, the calls made and the codes recorded are those of
  \<open>st\<close>, and every mode defined in \<open>st\<close> is defined in \<open>st'\<close>.
\<close>

definition frame :: "mode_state \<Rightarrow> mode_state \<Rightarrow> bool" where
  "frame st st' = (cwd st' = cwd st \<and> calls st' = calls st \<and> recorded st' = recorded st
      \<and> dom (map_of (modes st)) \<subseteq> dom (map_of (modes st')))"

text \<open>
  \<open>members\<close>: the files of a grouping with the depth and directory they are filed under.
  \<open>grouped\<close>: depths and directories are keys (each occurs once), and every directory is
  filed under the number of separators in its name.
\<close>

definition members :: "files_by_depth \<Rightarrow> (nat \<times> string \<times> string) set" where
  "members fbd =
     {(depth, dir, f). \<exists>dirs files.
        map_of fbd depth = Some dirs \<and> map_of dirs dir = Some files \<and> f \<in> files}"

definition grouped :: "files_by_depth \<Rightarrow> bool" where
  "grouped fbd =
     (distinct (map fst fbd) \<and>
      (\<forall>(depth, dirs) \<in> set fbd.
         distinct (map fst dirs) \<and> (\<forall>dir \<in> fst ` set dirs. count_sep dir = depth)))"

text \<open>
  \<open>declares name line (idx, cmd)\<close>: the line scan gives the line to the indexed-command rule
  (the line does not end the block and the two rules tried before do not match it), and the
  match names the mode \<open>name\<close>, the index \<open>idx\<close> and the tokens \<open>cmd\<close>.
\<close>

definition declares :: "string \<Rightarrow> string \<Rightarrow> int \<times> string list \<Rightarrow> bool" where
  "declares name line ic =
     ((case last_char line of Inl e \<Rightarrow> False | Inr c \<Rightarrow> c \<noteq> CHR '']'') \<and>
      re_search sentinel_exec_pattern line = None \<and>
      re_search sentinel_default_definition_pattern line = None \<and>
      (case re_search sentinel_cmd_pattern line of
         None \<Rightarrow> False
       | Some m \<Rightarrow> group m ''MODE'' = name \<and> py_int (group m ''IDX'') = Inr (fst ic) \<and>
                   shlex_split (group m ''ARGS'') = Inr (snd ic)))"

section \<open>Example environments\<close>

text \<open>A text from its lines, each ended by a newline.\<close>

definition text_of_lines :: "string list \<Rightarrow> string" where
  "text_of_lines ls = concat (map (\<lambda>l. l @ [CHR 0x0A]) ls)"

text \<open>
  A wrapped tool found on the search path as \<open>/usr/bin/ruff\<close>, started in \<open>/w\<close>, where
  \<open>a\<close> is a directory, whose settings dump and file listing are the given texts and whose
  other commands exit with 2 when they carry \<open>--check\<close> and with 0 otherwise.
\<close>

definition tool_world :: "string \<Rightarrow> string \<Rightarrow> world" where
  "tool_world settings listing =
     \<lparr>environ_exec = None, environ_skip = None, initwd = ''/w'',
      which = (\<lambda>wd name. if name = ''ruff'' then Some ''/usr/bin/ruff'' else None),
      isdir = (\<lambda>p. p = ''a''),
      chdir_ok = (\<lambda>d. True),
      spawn = (\<lambda>hist wd argv.
        if ''--show-settings'' \<in> set argv
        then Some \<lparr>returncode = 0, stdout = settings, stderr = []\<rparr>
        else if ''--show-files'' \<in> set argv
        then Some \<lparr>returncode = 0, stdout = listing, stderr = []\<rparr>
        else Some \<lparr>returncode = (if ''--check'' \<in> set argv then 2 else 0),
                    stdout = [], stderr = []\<rparr>)\<rparr>"

text \<open>The same tool with the environment default set and the skip flag unset.\<close>

definition world_env_default :: world where
  "world_env_default = (tool_world [] [])\<lparr>environ_exec := Some ''/opt/pinned/ruff''\<rparr>"

text \<open>A settings dump without the header line, holding an executable override.\<close>

definition settings_no_header :: string where
  "settings_no_header =
     text_of_lines [''linter.allowed_confusables = []'', ''__RUFFWRAP_EXEC__/opt/ruff,'']"

text \<open>The options of a batch run in a mode, with or without mode-require.\<close>

definition batch_args :: "string \<Rightarrow> bool \<Rightarrow> args" where
  "batch_args name require = \<lparr>mode = name, mode_require = require, verbose = 0\<rparr>"

text \<open>No \<open>ruff\<close> and no \<open>uvx\<close> on the search path.\<close>

definition world_no_tool :: world where
  "world_no_tool = (tool_world [] [])\<lparr>which := (\<lambda>wd name. None)\<rparr>"

text \<open>A search path with a relative entry: the tool is found from \<open>/w/a/b\<close> only.\<close>

definition world_tool_in_subdir :: world where
  "world_tool_in_subdir =
     (tool_world [] [])\<lparr>which := (\<lambda>wd name.
        if wd = ''/w/a/b'' \<and> name = ''ruff'' then Some ''/w/a/b/bin/ruff'' else None)\<rparr>"

text \<open>The skip flag set.\<close>

definition world_skip :: world where
  "world_skip = (tool_world [] [])\<lparr>environ_skip := Some ''1''\<rparr>"

text \<open>A settings dump that activates the standard definition of a mode that has none.\<close>

definition settings_custom :: string where
  "settings_custom =
     text_of_lines [''linter.builtins = ['', ''__RUFFWRAP_MODE_custom_DEFAULT_DEFINITION__,'', '']'']"

text \<open>A settings dump that declares the commands of a mode at the indices 0, 5 and 2.\<close>

definition settings_fixup :: string where
  "settings_fixup =
     text_of_lines [''linter.builtins = ['',
                    ''__RUFFWRAP_MODE_fixup_CMD_0__check --fix,'',
                    ''__RUFFWRAP_MODE_fixup_CMD_5__check --add-noqa,'',
                    ''__RUFFWRAP_MODE_fixup_CMD_2__format,'',
                    '']'']"

text \<open>
  A settings dump that declares a mode of three commands, the second of which carries
  \<open>--check\<close> and so exits with 2 in the example tool.
\<close>

definition settings_gate :: string where
  "settings_gate =
     text_of_lines [''linter.builtins = ['',
                    ''__RUFFWRAP_MODE_gate_CMD_0__check --no-fix,'',
                    ''__RUFFWRAP_MODE_gate_CMD_1__format --check,'',
                    ''__RUFFWRAP_MODE_gate_CMD_2__check --add-noqa,'',
                    '']'']"

section \<open>Properties\<close>

subsection \<open>Frame lemmas\<close>

lemma call_Inr:
  "call w st argv = Inr (p, st') \<Longrightarrow> st' = st\<lparr>calls := calls st @ [(cwd st, argv)]\<rparr>"
  by (auto simp: call_def split: option.splits)

lemma call_spawn:
  "spawn w (calls st) (cwd st) argv = Some p \<Longrightarrow>
   call w st argv = Inr (p, st\<lparr>calls := calls st @ [(cwd st, argv)]\<rparr>)"
  by (simp add: call_def)

lemma ruff_calls_update [simp]: "ruff w (st\<lparr>calls := c\<rparr>) xs = ruff w st xs"
  by (simp add: ruff_def cong: option.case_cong)

lemma ruff_recorded_update [simp]: "ruff w (st\<lparr>recorded := c\<rparr>) xs = ruff w st xs"
  by (simp add: ruff_def cong: option.case_cong)

lemma frame_refl [simp]: "frame st st"
  by (simp add: frame_def)

lemma frame_trans: "frame a b \<Longrightarrow> frame b c \<Longrightarrow> frame a c"
  by (auto simp: frame_def)

lemma sentinel_exec_frame: "sentinel_exec m st = Inr st' \<Longrightarrow> frame st st'"
  by (auto simp: sentinel_exec_def frame_def)

lemma sentinel_cmd_frame: "sentinel_cmd m st = Inr st' \<Longrightarrow> frame st st'"
  by (auto simp: sentinel_cmd_def frame_def Let_def update_conv' split: sum.splits)

lemma sentinel_default_definition_frame:
  "sentinel_default_definition m st = Inr st' \<Longrightarrow> frame st st'"
  by (auto simp: sentinel_default_definition_def frame_def Let_def update_conv'
           split: sum.splits option.splits)

lemma match_line_frame: "match_line sentinels_map line st = Inr st' \<Longrightarrow> frame st st'"
  by (auto simp: sentinels_map_def split: option.splits
           dest: sentinel_exec_frame sentinel_cmd_frame sentinel_default_definition_frame)

lemma scan_lines_frame:
  "scan_lines sentinels_map lk lines st = Inr st' \<Longrightarrow> frame st st'"
proof (induction lines arbitrary: lk st)
  case Nil
  then show ?case by simp
next
  case (Cons line rest)
  show ?case
  proof (cases "lk \<and> \<not> startswith line ''linter.builtins = [''")
    case True
    with Cons.prems have "scan_lines sentinels_map True rest st = Inr st'" by simp
    then show ?thesis by (rule Cons.IH)
  next
    case False
    with Cons.prems obtain c where c: "last_char line = Inr c"
      by (auto split: sum.splits)
    show ?thesis
    proof (cases "c = CHR '']''")
      case True
      with False c Cons.prems show ?thesis by auto
    next
      case nb: False
      with False c Cons.prems obtain st1 where
        m: "match_line sentinels_map line st = Inr st1" and
        r: "scan_lines sentinels_map False rest st1 = Inr st'"
        by (auto split: sum.splits)
      from match_line_frame [OF m] Cons.IH [OF r] show ?thesis by (rule frame_trans)
    qed
  qed
qed

lemma process_sentinels_frame:
  assumes "process_sentinels w sentinels_map st = Inr st'"
  shows "cwd st' = cwd st \<and> recorded st' = recorded st
    \<and> (\<exists>argv. ruff w st show_settings_args = Inr argv \<and> calls st' = calls st @ [(cwd st, argv)])
    \<and> dom (map_of (modes st)) \<subseteq> dom (map_of (modes st'))"
proof -
  from assms obtain argv p st1 where
    r: "ruff w st show_settings_args = Inr argv" and c: "call w st argv = Inr (p, st1)"
    by (auto simp: process_sentinels_def split: sum.splits)
  have st1: "st1 = st\<lparr>calls := calls st @ [(cwd st, argv)]\<rparr>" by (rule call_Inr [OF c])
  from assms r c have "st' = st1 \<or> scan_lines sentinels_map True (splitlines (stdout p)) st1 = Inr st'"
    by (auto simp: process_sentinels_def split: if_splits)
  then have "frame st1 st'" by (auto dest: scan_lines_frame)
  with st1 r show ?thesis by (auto simp: frame_def)
qed

lemma run_cmds_frame:
  "run_cmds w cmds paths st = Inr (res, st') \<Longrightarrow>
     cwd st' = cwd st \<and> recorded st' = recorded st \<and> exec st' = exec st \<and> modes st' = modes st"
proof (induction cmds arbitrary: st)
  case Nil
  then show ?case by simp
next
  case (Cons ic rest)
  obtain idx cmd where ic: "ic = (idx, cmd)" by (cases ic)
  from Cons.prems ic obtain argv p st1 where
    r: "ruff w st (cmd @ paths) = Inr argv" and c: "call w st argv = Inr (p, st1)"
    by (auto split: sum.splits)
  have st1: "st1 = st\<lparr>calls := calls st @ [(cwd st, argv)]\<rparr>" by (rule call_Inr [OF c])
  show ?case
  proof (cases "returncode p = 0")
    case True
    with Cons.prems ic r c have "run_cmds w rest paths st1 = Inr (res, st')" by simp
    from Cons.IH [OF this] st1 show ?thesis by simp
  next
    case False
    with Cons.prems ic r c have "st' = st1" by simp
    with st1 show ?thesis by simp
  qed
qed

subsection \<open>The line scan\<close>

lemma scan_lines_no_header:
  "\<forall>l \<in> set lines. \<not> startswith l ''linter.builtins = ['' \<Longrightarrow> scan_lines sm True lines st = Inr st"
  by (induction lines) auto

lemma scan_lines_stops:
  "\<not> lk \<or> (\<exists>l \<in> set (pre @ [t]). startswith l ''linter.builtins = ['') \<Longrightarrow>
   last_char t = Inr (CHR '']'') \<Longrightarrow>
   scan_lines sm lk (pre @ t # post) st = scan_lines sm lk (pre @ [t]) st"
proof (induction pre arbitrary: lk st)
  case Nil
  then show ?case by auto
next
  case (Cons l pre)
  show ?case
  proof (cases "lk \<and> \<not> startswith l ''linter.builtins = [''")
    case True
    with Cons.prems have "\<exists>l \<in> set (pre @ [t]). startswith l ''linter.builtins = [''" by auto
    with Cons.IH [of True st] Cons.prems(2) True show ?thesis by simp
  next
    case False
    have "scan_lines sm False (pre @ t # post) s = scan_lines sm False (pre @ [t]) s" for s
      using Cons.IH [of False s] Cons.prems(2) by simp
    with False show ?thesis by (auto split: sum.splits)
  qed
qed

subsection \<open>C9: no header, no mutation; nothing is scanned after the terminator\<close>

text \<open>
  Claim C9. For a settings dump with no header line the scan leaves the state as it is, and
  so does \<open>process_sentinels\<close> apart from the probe call it logs: the resolved executable
  and the declared command sequences are unchanged. Once the header has been seen, the scan
  ends at a line whose last character is the closing bracket: the lines after it do not
  change the result, so a sentinel there has no effect.
\<close>

theorem scan_without_header_and_after_terminator:
  "((\<forall>l \<in> set (splitlines dump). \<not> startswith l ''linter.builtins = ['') \<longrightarrow>
      scan_lines sm True (splitlines dump) st = Inr st) \<and>
   ((\<forall>l \<in> set (splitlines (stdout result)). \<not> startswith l ''linter.builtins = ['') \<and>
      ruff w st show_settings_args = Inr argv \<and>
      spawn w (calls st) (cwd st) argv = Some result \<and> returncode result = 0 \<longrightarrow>
      process_sentinels w sm st = Inr (st\<lparr>calls := calls st @ [(cwd st, argv)]\<rparr>)) \<and>
   ((\<exists>l \<in> set (pre @ [t]). startswith l ''linter.builtins = ['') \<and>
      last_char t = Inr (CHR '']'') \<longrightarrow>
      scan_lines sm True (pre @ t # post) st = scan_lines sm True (pre @ [t]) st)"
proof (intro conjI impI)
  assume "\<forall>l \<in> set (splitlines dump). \<not> startswith l ''linter.builtins = [''"
  then show "scan_lines sm True (splitlines dump) st = Inr st" by (rule scan_lines_no_header)
next
  assume a: "(\<forall>l \<in> set (splitlines (stdout result)). \<not> startswith l ''linter.builtins = ['') \<and>
      ruff w st show_settings_args = Inr argv \<and>
      spawn w (calls st) (cwd st) argv = Some result \<and> returncode result = 0"
  then have "scan_lines sm True (splitlines (stdout result))
               (st\<lparr>calls := calls st @ [(cwd st, argv)]\<rparr>)
             = Inr (st\<lparr>calls := calls st @ [(cwd st, argv)]\<rparr>)"
    by (intro scan_lines_no_header) simp
  with a show "process_sentinels w sm st = Inr (st\<lparr>calls := calls st @ [(cwd st, argv)]\<rparr>)"
    by (simp add: process_sentinels_def call_def)
next
  assume "(\<exists>l \<in> set (pre @ [t]). startswith l ''linter.builtins = ['') \<and>
          last_char t = Inr (CHR '']'')"
  then show "scan_lines sm True (pre @ t # post) st = scan_lines sm True (pre @ [t]) st"
    by (intro scan_lines_stops) auto
qed

text \<open>
  The dump without a header holds an executable override that is not applied; the override
  after the terminator line is not applied either, while the command before it is recorded.
\<close>

theorem scan_without_header_and_after_terminator_witness:
  "scan_lines sentinels_map True (splitlines settings_no_header)
     (init_state (tool_world settings_no_header [])) = Inr (init_state (tool_world settings_no_header []))
   \<and> process_sentinels (tool_world settings_no_header []) sentinels_map
        (init_state (tool_world settings_no_header []))
      = Inr ((init_state (tool_world settings_no_header []))
               \<lparr>calls := [(''/w'', ''/usr/bin/ruff'' # show_settings_args)]\<rparr>)
   \<and> scan_lines sentinels_map True
        ([''linter.builtins = ['', ''__RUFFWRAP_MODE_m_CMD_0__check,''] @ '']''
           # [''__RUFFWRAP_EXEC__/opt/ruff,''])
        (init_state (tool_world settings_no_header []))
      = Inr ((init_state (tool_world settings_no_header []))\<lparr>modes := [(''m'', [(0, [''check''])])]\<rparr>)"
proof -
  let ?w = "tool_world settings_no_header []"
  let ?st = "init_state ?w"
  let ?argv = "''/usr/bin/ruff'' # show_settings_args"
  let ?result = "\<lparr>returncode = 0, stdout = settings_no_header, stderr = []\<rparr>"
  let ?pre = "[''linter.builtins = ['', ''__RUFFWRAP_MODE_m_CMD_0__check,'']"
  have h1: "\<forall>l \<in> set (splitlines settings_no_header). \<not> startswith l ''linter.builtins = [''"
    by code_simp
  have h2: "ruff ?w ?st show_settings_args = Inr ?argv" by code_simp
  have h3: "spawn ?w (calls ?st) (cwd ?st) ?argv = Some ?result" by code_simp
  have h4: "\<exists>l \<in> set (?pre @ ['']'']). startswith l ''linter.builtins = [''" by code_simp
  have h5: "last_char '']'' = Inr (CHR '']'')" by code_simp
  have h6: "scan_lines sentinels_map True (?pre @ ['']'']) ?st
            = Inr (?st\<lparr>modes := [(''m'', [(0, [''check''])])]\<rparr>)" by code_simp
  have h7: "calls ?st = []" "cwd ?st = ''/w''" by code_simp+
  from scan_without_header_and_after_terminator
         [where dump = settings_no_header and sm = sentinels_map and st = ?st and w = ?w
            and result = ?result and argv = ?argv and pre = ?pre and t = "'']''"
            and post = "[''__RUFFWRAP_EXEC__/opt/ruff,'']"]
       h1 h2 h3 h4 h5 h6 h7
  show ?thesis by simp
qed

subsection \<open>C10: an empty line after the header\<close>

text \<open>
  Claim C10 says that the line scan is total and passes over an empty line between the header
  and the terminator. In the code the test \<open>line[-1] == "]"\<close> raises IndexError on an empty
  line: every scan that reaches an empty line after the header ends in that exception, as
  for the dump made of the header line, an empty line and the terminator line.
\<close>

theorem empty_line_after_header_raises:
  "scan_lines sm False ([] # rest) st = Inl IndexError \<and>
   scan_lines sentinels_map True
     (splitlines (''linter.builtins = ['' @ [CHR 0x0A, CHR 0x0A] @ '']'' @ [CHR 0x0A])) st
     = Inl IndexError"
proof
  show "scan_lines sm False ([] # rest) st = Inl IndexError" by (simp add: last_char_def)
  show "scan_lines sentinels_map True
     (splitlines (''linter.builtins = ['' @ [CHR 0x0A, CHR 0x0A] @ '']'' @ [CHR 0x0A])) st
     = Inl IndexError" by code_simp
qed

subsection \<open>C2: indexed commands with an index of several digits\<close>

text \<open>
  Claim C2 says that an indexed-command line with any non-negative index, such as 10, is
  recognised. The pattern's index group is the class \<open>[\d+]\<close>, one character: the line
  with index 10 matches no rule and leaves the state as it is, while the same line with
  index 7 records its tokens under the mode and index.
\<close>

theorem two_digit_index_not_recognised:
  "re_search sentinel_cmd_pattern ''__RUFFWRAP_MODE_hook_CMD_10__check --fix,'' = None \<and>
   match_line sentinels_map ''__RUFFWRAP_MODE_hook_CMD_10__check --fix,'' st = Inr st \<and>
   match_line sentinels_map ''__RUFFWRAP_MODE_hook_CMD_7__check --fix,'' (init_state w)
     = Inr ((init_state w)\<lparr>modes := [(''hook'', [(7, [''check'', ''--fix''])])]\<rparr>)"
  by code_simp

subsection \<open>C1: the environment default\<close>

text \<open>
  Without the skip flag the command array does not depend on the environment variable; with
  the skip flag it does not depend on the sentinel override.
\<close>

lemma ruff_without_skip_ignores_environment:
  "\<not> skip w \<Longrightarrow> ruff (w\<lparr>environ_exec := v\<rparr>) st xs = ruff w st xs"
  by (simp add: ruff_def skip_def cong: option.case_cong)

lemma ruff_with_skip_ignores_override:
  "skip w \<Longrightarrow> ruff w (st\<lparr>exec := e\<rparr>) xs = ruff w st xs"
  by (simp add: ruff_def cong: option.case_cong)

text \<open>
  Claim C1 says that without the skip flag and without a sentinel override the resolver
  takes the executable of the environment variable before it searches the path. In the code
  the variable is read only when the skip flag is set: with the variable set to
  \<open>/opt/pinned/ruff\<close>, no skip flag and no override, the command array starts with the
  executable found on the search path.
\<close>

theorem environment_default_not_consulted:
  "environ_exec world_env_default = Some ''/opt/pinned/ruff'' \<and>
   skip world_env_default = False \<and>
   exec (init_state world_env_default) = [] \<and>
   ruff world_env_default (init_state world_env_default) [''check'']
     = Inr [''/usr/bin/ruff'', ''check'']"
  by code_simp

subsection \<open>C3: executable resolution fails in a bucket\<close>

lemma run_buckets_append:
  "run_buckets w a (xs @ ys) rc st =
     (case run_buckets w a xs rc st of
        Inl e \<Rightarrow> Inl e
      | Inr (rc', st') \<Rightarrow> run_buckets w a ys rc' st')"
  by (induction xs arbitrary: rc st) (auto split: sum.splits)

lemma ruff_not_found:
  "\<not> skip w \<Longrightarrow> exec st = [] \<Longrightarrow> which w (cwd st) ''ruff'' = None \<Longrightarrow>
   which w (cwd st) ''uvx'' = None \<Longrightarrow> ruff w st cmdargs = Inl FileNotFoundError"
  by (simp add: ruff_def)

lemma process_bucket_not_found:
  assumes "\<not> skip w"
    and "which w (initwd w @ ''/'' @ fst bucket) ''ruff'' = None"
    and "which w (initwd w @ ''/'' @ fst bucket) ''uvx'' = None"
    and "chdir_ok w (initwd w @ ''/'' @ fst bucket)"
  shows "process_bucket w a bucket rc st = Inl FileNotFoundError"
proof -
  let ?st = "reset (st\<lparr>cwd := initwd w @ ''/'' @ fst bucket\<rparr>)"
  have "ruff w ?st show_settings_args = Inl FileNotFoundError"
    using assms by (intro ruff_not_found) (simp_all add: reset_def)
  then have "process_sentinels w sentinels_map ?st = Inl FileNotFoundError"
    by (simp add: process_sentinels_def)
  with assms(4) show ?thesis by (simp add: process_bucket_def Let_def)
qed

text \<open>
  Claim C3, amended. When the skip flag is unset and neither \<open>ruff\<close> nor \<open>uvx\<close> is found
  from a bucket's directory (which the run could enter), processing that bucket raises
  FileNotFoundError and so does the run, whatever buckets were processed before it and
  whatever buckets remain: the failure is not recorded as the bucket's result and no later
  bucket is processed.
\<close>

theorem resolution_failure_aborts_run:
  assumes "\<not> skip w"
    and "which w (initwd w @ ''/'' @ fst bucket) ''ruff'' = None"
    and "which w (initwd w @ ''/'' @ fst bucket) ''uvx'' = None"
    and "chdir_ok w (initwd w @ ''/'' @ fst bucket)"
    and "run_buckets w a before rc st = Inr (rc', st')"
  shows "process_bucket w a bucket rc' st' = Inl FileNotFoundError \<and>
         run_buckets w a (before @ bucket # rest) rc st = Inl FileNotFoundError"
  using assms(5) process_bucket_not_found [OF assms(1-4), of a rc' st']
  by (simp add: run_buckets_append)

text \<open>
  The bucket \<open>a/b\<close> is processed (its mode is undefined), the tool is not found from the
  next bucket's directory, and the third bucket is never reached.
\<close>

theorem resolution_failure_aborts_run_witness:
  "run_buckets world_tool_in_subdir (batch_args ''hook'' False)
     ([(''a/b'', {''/w/a/b/x.py''})] @ (''.'', {''/w/y.py''}) # [(''c'', {''/w/c/z.py''})]) 0
     (init_state world_tool_in_subdir)
   = Inl FileNotFoundError"
proof -
  let ?w = world_tool_in_subdir
  let ?st' = "(init_state ?w)\<lparr>cwd := ''/w/a/b'',
                calls := [(''/w/a/b'', ''/w/a/b/bin/ruff'' # show_settings_args)]\<rparr>"
  have h1: "\<not> skip ?w" by code_simp
  have h2: "which ?w (initwd ?w @ ''/'' @ fst (''.'', {''/w/y.py''})) ''ruff'' = None" by code_simp
  have h3: "which ?w (initwd ?w @ ''/'' @ fst (''.'', {''/w/y.py''})) ''uvx'' = None" by code_simp
  have h4: "chdir_ok ?w (initwd ?w @ ''/'' @ fst (''.'', {''/w/y.py''}))" by code_simp
  have h5: "run_buckets ?w (batch_args ''hook'' False) [(''a/b'', {''/w/a/b/x.py''})] 0 (init_state ?w)
            = Inr (0, ?st')" by code_simp
  from resolution_failure_aborts_run [OF h1 h2 h3 h4 h5] show ?thesis by simp
qed

text \<open>
  Claim C3 as stated fails: with two buckets and no tool on the search path, resolution fails
  in the first bucket and the run ends in FileNotFoundError instead of returning an exit code
  after the second bucket.
\<close>

theorem resolution_failure_counterexample:
  "get_files_by_depth world_no_tool ''/w'' [''a/b/x.py'', ''y.py'']
     = Inr [(1, [(''a/b'', {''/w/a/b/x.py''})]), (0, [(''.'', {''/w/y.py''})])] \<and>
   ruff world_no_tool ((init_state world_no_tool)\<lparr>cwd := ''/w/a/b''\<rparr>) show_settings_args
     = Inl FileNotFoundError \<and>
   run world_no_tool (batch_args ''hook'' False) [''a/b/x.py'', ''y.py''] = Inl FileNotFoundError"
  by code_simp

subsection \<open>C7: the path-list delimiter\<close>

lemma list_index_first:
  "x \<notin> set pre \<Longrightarrow> list_index x (pre @ x # post) = Some (length pre)"
  by (induction pre) auto

lemma run_skip: "skip w \<Longrightarrow> run w a as = Inr (0, init_state w)"
  by (simp add: run_def)

text \<open>
  Claim C7, amended. When the skip flag is unset and the first \<open>--\<close> of the passthrough
  arguments stands behind at least one other token, the run returns 3 in its initial state,
  with no call made; when \<open>--\<close> is the first token, the path list is exactly the tokens
  after it. When the skip flag is set, the run returns 0 in its initial state, with no call
  made, whatever the arguments are.
\<close>

theorem misplaced_delimiter_rejected:
  "(\<not> skip w \<and> pre \<noteq> [] \<and> ''--'' \<notin> set pre \<longrightarrow>
      get_paths_from_args (pre @ ''--'' # post) = (False, pre) \<and>
      run w a (pre @ ''--'' # post) = Inr (3, init_state w) \<and> calls (init_state w) = []) \<and>
   get_paths_from_args (''--'' # rest) = (True, rest) \<and>
   (skip w \<longrightarrow> run w a as = Inr (0, init_state w) \<and> calls (init_state w) = [])"
proof (intro conjI impI)
  assume a: "\<not> skip w \<and> pre \<noteq> [] \<and> ''--'' \<notin> set pre"
  then have i: "list_index ''--'' (pre @ ''--'' # post) = Some (length pre)"
    by (intro list_index_first) simp
  from a i show g: "get_paths_from_args (pre @ ''--'' # post) = (False, pre)"
    by (simp add: get_paths_from_args_def)
  from a g show "run w a (pre @ ''--'' # post) = Inr (3, init_state w)"
    by (simp add: run_def)
  show "calls (init_state w) = []" by (simp add: init_state_def)
next
  show "get_paths_from_args (''--'' # rest) = (True, rest)"
    by (simp add: get_paths_from_args_def)
next
  assume "skip w"
  then show "run w a as = Inr (0, init_state w)" by (rule run_skip)
  show "calls (init_state w) = []" by (simp add: init_state_def)
qed

text \<open>
  The arguments \<open>foo -- a.py\<close> are rejected; \<open>-- a.py\<close> gives the path list \<open>a.py\<close>;
  with the skip flag set, \<open>foo -- a.py\<close> returns 0.
\<close>

theorem misplaced_delimiter_rejected_witness:
  "get_paths_from_args ([''foo''] @ ''--'' # [''a.py'']) = (False, [''foo'']) \<and>
   run (tool_world [] []) (batch_args ''hook'' False) ([''foo''] @ ''--'' # [''a.py''])
     = Inr (3, init_state (tool_world [] [])) \<and>
   calls (init_state (tool_world [] [])) = [] \<and>
   get_paths_from_args (''--'' # [''a.py'']) = (True, [''a.py'']) \<and>
   skip world_skip \<and>
   run world_skip (batch_args ''hook'' False) [''foo'', ''--'', ''a.py'']
     = Inr (0, init_state world_skip)"
proof -
  have h: "\<not> skip (tool_world [] []) \<and> [''foo''] \<noteq> [] \<and> ''--'' \<notin> set [''foo'']"
    by code_simp
  have s: "skip world_skip" by code_simp
  from misplaced_delimiter_rejected
         [where w = "tool_world [] []" and pre = "[''foo'']" and post = "[''a.py'']"
            and a = "batch_args ''hook'' False" and rest = "[''a.py'']"] h
  have one: "get_paths_from_args ([''foo''] @ ''--'' # [''a.py'']) = (False, [''foo'']) \<and>
             run (tool_world [] []) (batch_args ''hook'' False) ([''foo''] @ ''--'' # [''a.py''])
               = Inr (3, init_state (tool_world [] [])) \<and>
             calls (init_state (tool_world [] [])) = [] \<and>
             get_paths_from_args (''--'' # [''a.py'']) = (True, [''a.py''])"
    by blast
  from misplaced_delimiter_rejected
         [where w = world_skip and a = "batch_args ''hook'' False"
            and as = "[''foo'', ''--'', ''a.py'']"] s
  have two: "run world_skip (batch_args ''hook'' False) [''foo'', ''--'', ''a.py'']
               = Inr (0, init_state world_skip)"
    by blast
  from one s two show ?thesis by blast
qed

text \<open>
  Claim C7 as stated fails twice: the list \<open>-- -- a.py\<close> holds \<open>--\<close> at position 1, yet
  the run takes \<open>--\<close> and \<open>a.py\<close> as paths, probes the settings and returns 0; and with
  the skip flag set the list \<open>foo -- a.py\<close> returns 0, not 3.
\<close>

theorem misplaced_delimiter_counterexample:
  "[''--'', ''--'', ''a.py''] ! 1 = ''--'' \<and>
   get_paths_from_args [''--'', ''--'', ''a.py''] = (True, [''--'', ''a.py'']) \<and>
   run (tool_world [] []) (batch_args ''hook'' False) [''--'', ''--'', ''a.py'']
     = Inr (0, (init_state (tool_world [] []))
                 \<lparr>cwd := ''/w/.'', calls := [(''/w/.'', ''/usr/bin/ruff'' # show_settings_args)]\<rparr>) \<and>
   skip world_skip \<and>
   run world_skip (batch_args ''hook'' False) [''foo'', ''--'', ''a.py'']
     = Inr (0, init_state world_skip)"
  by code_simp

subsection \<open>C8: the standard definition of an unknown mode\<close>

lemma process_bucket_empty_mode:
  assumes ps: "process_sentinels w sentinels_map (reset (st\<lparr>cwd := initwd w @ ''/'' @ fst bucket\<rparr>))
             = Inr st1"
    and m: "map_of (modes st1) (mode a) = Some []"
    and pb: "process_bucket w a bucket rc st = Inr (rc', st')"
  shows "rc' = rc \<and> recorded st' = recorded st"
proof -
  from process_sentinels_frame [OF ps] have r1: "recorded st1 = recorded st"
    by (simp add: reset_def)
  from pb have ok: "chdir_ok w (initwd w @ ''/'' @ fst bucket)"
    by (auto simp: process_bucket_def Let_def split: if_splits)
  from pb ok ps m obtain argv listing st2 where
    r: "ruff w st1 [''check'', ''--show-files''] = Inr argv" and
    c: "call w st1 argv = Inr (listing, st2)"
    by (auto simp: process_bucket_def Let_def split: sum.splits)
  have st2: "recorded st2 = recorded st1" using call_Inr [OF c] by simp
  from pb ok ps m r c have "rc' = rc \<and> st' = st2"
    by (auto simp: process_bucket_def Let_def split: if_splits)
  with st2 r1 show ?thesis by simp
qed

text \<open>
  Claim C8. For a mode name that is none of the four built-in names, the handler of the
  standard-definition sentinel installs the empty command sequence under that name. Whatever
  lines are scanned after it, the name stays defined. A bucket whose requested mode is defined
  with the empty sequence records no failure and leaves the return code as it was, with or
  without mode-require.
\<close>

theorem unknown_default_definition_is_defined_empty:
  assumes "name \<notin> set [''hook'', ''hook-fix'', ''verify'', ''enroll'']"
    and "group m ''MODE'' = name"
  shows "sentinel_default_definition m st = Inr (st\<lparr>modes := AList.update name [] (modes st)\<rparr>) \<and>
         map_of (AList.update name [] (modes st)) name = Some [] \<and>
         (scan_lines sentinels_map lk rest (st\<lparr>modes := AList.update name [] (modes st)\<rparr>) = Inr st2
            \<longrightarrow> name \<in> dom (map_of (modes st2))) \<and>
         (process_sentinels w sentinels_map (reset (st0\<lparr>cwd := initwd w @ ''/'' @ fst bucket\<rparr>))
              = Inr st1 \<and>
            mode a = name \<and> map_of (modes st1) name = Some [] \<and>
            process_bucket w a bucket rc st0 = Inr (rc', st')
            \<longrightarrow> rc' = rc \<and> recorded st' = recorded st0)"
proof (intro conjI impI)
  from assms(1) have "map_of mode_default_definition_funcs name = None"
    by (simp add: mode_default_definition_funcs_def)
  with assms(2)
  show "sentinel_default_definition m st = Inr (st\<lparr>modes := AList.update name [] (modes st)\<rparr>)"
    by (simp add: sentinel_default_definition_def)
  show "map_of (AList.update name [] (modes st)) name = Some []"
    by (simp add: update_conv')
next
  assume "scan_lines sentinels_map lk rest (st\<lparr>modes := AList.update name [] (modes st)\<rparr>) = Inr st2"
  from scan_lines_frame [OF this] show "name \<in> dom (map_of (modes st2))"
    by (auto simp: frame_def update_conv')
next
  assume a: "process_sentinels w sentinels_map (reset (st0\<lparr>cwd := initwd w @ ''/'' @ fst bucket\<rparr>))
              = Inr st1 \<and>
            mode a = name \<and> map_of (modes st1) name = Some [] \<and>
            process_bucket w a bucket rc st0 = Inr (rc', st')"
  then have "rc' = rc \<and> recorded st' = recorded st0"
    by (intro process_bucket_empty_mode [where ?st1.0 = st1 and w = w and a = a and bucket = bucket]) auto
  then show "rc' = rc" and "recorded st' = recorded st0" by simp_all
qed

text \<open>
  The mode \<open>custom\<close>: its activation line installs the empty sequence, and the run in that
  mode with mode-require set returns 0 with nothing recorded.
\<close>

theorem unknown_default_definition_is_defined_empty_witness:
  "match_line sentinels_map ''__RUFFWRAP_MODE_custom_DEFAULT_DEFINITION__,''
     (init_state (tool_world settings_custom ''/w/x.py''))
     = Inr ((init_state (tool_world settings_custom ''/w/x.py''))\<lparr>modes := [(''custom'', [])]\<rparr>) \<and>
   sentinel_default_definition [(''MODE'', ''custom'')] (init_state (tool_world settings_custom ''/w/x.py''))
     = Inr ((init_state (tool_world settings_custom ''/w/x.py''))\<lparr>modes := [(''custom'', [])]\<rparr>) \<and>
   process_bucket (tool_world settings_custom ''/w/x.py'') (batch_args ''custom'' True)
       (''.'', {''/w/x.py''}) 0 (init_state (tool_world settings_custom ''/w/x.py''))
     = Inr (0, \<lparr>exec = [], modes = [(''custom'', [])], cwd = ''/w/.'',
                calls = [(''/w/.'', ''/usr/bin/ruff'' # show_settings_args),
                         (''/w/.'', [''/usr/bin/ruff'', ''check'', ''--show-files''])],
                recorded = []\<rparr>) \<and>
   run (tool_world settings_custom ''/w/x.py'') (batch_args ''custom'' True) [''x.py'']
     = Inr (0, \<lparr>exec = [], modes = [(''custom'', [])], cwd = ''/w/.'',
                calls = [(''/w/.'', ''/usr/bin/ruff'' # show_settings_args),
                         (''/w/.'', [''/usr/bin/ruff'', ''check'', ''--show-files''])],
                recorded = []\<rparr>)"
proof -
  let ?w = "tool_world settings_custom ''/w/x.py''"
  let ?st0 = "init_state ?w"
  let ?a = "batch_args ''custom'' True"
  let ?st1 = "\<lparr>exec = [], modes = [(''custom'', [])], cwd = ''/w/.'',
               calls = [(''/w/.'', ''/usr/bin/ruff'' # show_settings_args)], recorded = []\<rparr>"
  let ?st' = "\<lparr>exec = [], modes = [(''custom'', [])], cwd = ''/w/.'',
                calls = [(''/w/.'', ''/usr/bin/ruff'' # show_settings_args),
                         (''/w/.'', [''/usr/bin/ruff'', ''check'', ''--show-files''])],
                recorded = []\<rparr>"
  have h1: "''custom'' \<notin> set [''hook'', ''hook-fix'', ''verify'', ''enroll'']" by code_simp
  have h2: "group [(''MODE'', ''custom'')] ''MODE'' = ''custom''" by code_simp
  have h3: "match_line sentinels_map ''__RUFFWRAP_MODE_custom_DEFAULT_DEFINITION__,'' ?st0
            = Inr (?st0\<lparr>modes := [(''custom'', [])]\<rparr>)" by code_simp
  have h4: "process_sentinels ?w sentinels_map
              (reset (?st0\<lparr>cwd := initwd ?w @ ''/'' @ fst (''.'', {''/w/x.py''})\<rparr>)) = Inr ?st1"
    by code_simp
  have h5: "mode ?a = ''custom''" "map_of (modes ?st1) ''custom'' = Some []" by code_simp+
  have h6: "process_bucket ?w ?a (''.'', {''/w/x.py''}) 0 ?st0 = Inr (0, ?st')" by code_simp
  have h7: "run ?w ?a [''x.py''] = Inr (0, ?st')" by code_simp
  have h8: "modes ?st0 = []" by code_simp
  from unknown_default_definition_is_defined_empty
         [OF h1 h2, where st = ?st0 and w = ?w and ?st0.0 = ?st0 and bucket = "(''.'', {''/w/x.py''})"
            and ?st1.0 = ?st1 and a = ?a and rc = 0 and rc' = 0 and st' = ?st']
       h3 h4 h5 h6 h7 h8
  show ?thesis by simp
qed

subsection \<open>C6: commands run in ascending index order\<close>

lemma ruff_prefix: "ruff w st xs = map_sum id (\<lambda>p. p @ xs) (ruff w st [])"
  by (simp add: ruff_def Let_def split: option.splits sum.splits)

lemma run_cmds_calls:
  "run_cmds w cmds paths st = Inr (res, st') \<Longrightarrow> ruff w st [] = Inr prefix \<Longrightarrow>
   \<exists>n \<le> length cmds.
     calls st' = calls st @ map (\<lambda>ic. (cwd st, prefix @ snd ic @ paths)) (take n cmds) \<and>
     (res = None \<longrightarrow> n = length cmds)"
proof (induction cmds arbitrary: st)
  case Nil
  then show ?case by simp
next
  case (Cons ic rest)
  obtain idx cmd where ic: "ic = (idx, cmd)" by (cases ic)
  have rf: "ruff w st (cmd @ paths) = Inr (prefix @ cmd @ paths)"
    using Cons.prems(2) by (simp add: ruff_prefix [of w st "cmd @ paths"])
  from Cons.prems(1) ic rf obtain p st1 where
    c: "call w st (prefix @ cmd @ paths) = Inr (p, st1)"
    by (auto split: sum.splits)
  have st1: "st1 = st\<lparr>calls := calls st @ [(cwd st, prefix @ cmd @ paths)]\<rparr>"
    by (rule call_Inr [OF c])
  show ?case
  proof (cases "returncode p = 0")
    case True
    with Cons.prems(1) ic rf c have r: "run_cmds w rest paths st1 = Inr (res, st')" by simp
    have "ruff w st1 [] = Inr prefix" using Cons.prems(2) st1 by simp
    from Cons.IH [OF r this] obtain n where
      n: "n \<le> length rest"
         "calls st' = calls st1 @ map (\<lambda>ic. (cwd st1, prefix @ snd ic @ paths)) (take n rest)"
         "res = None \<longrightarrow> n = length rest" by blast
    with st1 ic show ?thesis by (intro exI [of _ "Suc n"]) simp
  next
    case False
    with Cons.prems(1) ic rf c have "st' = st1" "res \<noteq> None" by auto
    with st1 ic show ?thesis by (intro exI [of _ "Suc 0"]) auto
  qed
qed

lemma update_fresh: "k \<notin> fst ` set al \<Longrightarrow> AList.update k v al = al @ [(k, v)]"
  by (induction al) auto

lemma scan_declares:
  assumes "declares name line (i, c)"
  shows "scan_lines sentinels_map False (line # rest) st =
         scan_lines sentinels_map False rest
           (st\<lparr>modes := AList.update name
                 (AList.update i c (case map_of (modes st) name of None \<Rightarrow> [] | Some d \<Rightarrow> d))
                 (modes st)\<rparr>)"
proof -
  from assms obtain ch m where
    l: "last_char line = Inr ch" "ch \<noteq> CHR '']''" and
    e: "re_search sentinel_exec_pattern line = None" and
    d: "re_search sentinel_default_definition_pattern line = None" and
    m: "re_search sentinel_cmd_pattern line = Some m" "group m ''MODE'' = name"
       "py_int (group m ''IDX'') = Inr i" "shlex_split (group m ''ARGS'') = Inr c"
    by (auto simp: declares_def split: sum.splits option.splits)
  have "match_line sentinels_map line st = sentinel_cmd m st"
    using e d m(1) by (simp add: sentinels_map_def)
  also have "\<dots> = Inr (st\<lparr>modes := AList.update name
                 (AList.update i c (case map_of (modes st) name of None \<Rightarrow> [] | Some d \<Rightarrow> d))
                 (modes st)\<rparr>)"
    using m(2-4) by (simp add: sentinel_cmd_def)
  finally show ?thesis using l by simp
qed

lemma scan_declares_more:
  "list_all2 (declares name) lines decls \<Longrightarrow> map_of (modes st) name = Some d0 \<Longrightarrow>
   distinct (map fst (d0 @ decls)) \<Longrightarrow>
   scan_lines sentinels_map False (lines @ rest) st =
   scan_lines sentinels_map False rest (st\<lparr>modes := AList.update name (d0 @ decls) (modes st)\<rparr>)"
proof (induction lines decls arbitrary: st d0 rule: list_all2_induct)
  case Nil
  then show ?case by (simp add: update_triv)
next
  case (Cons line lines ic decls)
  obtain i c where ic: "ic = (i, c)" by (cases ic)
  let ?st = "st\<lparr>modes := AList.update name (AList.update i c d0) (modes st)\<rparr>"
  have fresh: "AList.update i c d0 = d0 @ [(i, c)]"
    using Cons.prems(2) ic by (intro update_fresh) auto
  have step: "scan_lines sentinels_map False ((line # lines) @ rest) st =
              scan_lines sentinels_map False (lines @ rest) ?st"
    using scan_declares [of name line i c "lines @ rest" st] Cons.hyps(1) Cons.prems(1) ic
    by simp
  have look: "map_of (modes ?st) name = Some (d0 @ [(i, c)])"
    by (simp add: update_conv' fresh)
  have dist: "distinct (map fst ((d0 @ [(i, c)]) @ decls))"
    using Cons.prems(2) ic by simp
  from Cons.IH [OF look dist] step fresh ic show ?case by simp
qed

lemma scan_declares_all:
  assumes "list_all2 (declares name) lines decls" and "decls \<noteq> []"
    and "distinct (map fst decls)" and "modes st = []"
  shows "scan_lines sentinels_map False (lines @ rest) st =
         scan_lines sentinels_map False rest (st\<lparr>modes := [(name, decls)]\<rparr>)"
proof -
  from assms(1,2) obtain line lines' ic decls' where
    s: "lines = line # lines'" "decls = ic # decls'" "declares name line ic"
       "list_all2 (declares name) lines' decls'"
    by (cases lines; cases decls) auto
  obtain i c where ic: "ic = (i, c)" by (cases ic)
  let ?st = "st\<lparr>modes := [(name, [(i, c)])]\<rparr>"
  have "scan_lines sentinels_map False (lines @ rest) st =
        scan_lines sentinels_map False (lines' @ rest) ?st"
    using scan_declares [of name line i c "lines' @ rest" st] s ic assms(4) by simp
  also have "\<dots> = scan_lines sentinels_map False rest
                      (?st\<lparr>modes := AList.update name ([(i, c)] @ decls') (modes ?st)\<rparr>)"
    using s(2,4) ic assms(3) by (intro scan_declares_more) simp_all
  finally show ?thesis using s(2) ic by simp
qed

lemma header_line:
  "match_line sentinels_map ''linter.builtins = ['' st = Inr st \<and>
   last_char ''linter.builtins = ['' = Inr (CHR ''['')"
  by code_simp

lemma scan_declared_block:
  assumes "list_all2 (declares name) lines decls" and "decls \<noteq> []"
    and "distinct (map fst decls)" and "modes st = []"
    and "last_char closing = Inr (CHR '']'')"
  shows "scan_lines sentinels_map True (''linter.builtins = ['' # lines @ closing # post) st
         = Inr (st\<lparr>modes := [(name, decls)]\<rparr>)"
proof -
  have "scan_lines sentinels_map True (''linter.builtins = ['' # lines @ closing # post) st
        = scan_lines sentinels_map False (lines @ closing # post) st"
    using header_line [of st] by simp
  also have "\<dots> = scan_lines sentinels_map False (closing # post) (st\<lparr>modes := [(name, decls)]\<rparr>)"
    by (rule scan_declares_all [OF assms(1-4)])
  also have "\<dots> = Inr (st\<lparr>modes := [(name, decls)]\<rparr>)"
    using assms(5) by simp
  finally show ?thesis .
qed

text \<open>
  Claim C6. In a bucket that reaches the command loop, whatever command sequence the registry
  holds for the requested mode and in whatever order its entries were inserted: the calls of
  the bucket after the settings probe are the file listing and then the resolved prefix, the
  command and the paths for an initial part of the sequence sorted by index, in that order;
  all of it when the bucket records no failure. The sorted sequence holds the entries of the
  registry's sequence, with ascending indices. The registry's sequence is what the sentinels
  declared: for a settings block of indexed-command lines of one mode with distinct indices,
  in any order, \<open>process_sentinels\<close> leaves exactly those commands under the mode, in the
  order of declaration.
\<close>

theorem commands_run_in_ascending_index_order:
  assumes ok: "chdir_ok w (initwd w @ ''/'' @ dir)"
    and ps: "process_sentinels w sentinels_map (reset (st\<lparr>cwd := initwd w @ ''/'' @ dir\<rparr>)) = Inr st1"
    and md: "map_of (modes st1) (mode a) = Some cmds"
    and ls: "ruff w st1 [''check'', ''--show-files''] = Inr argvL"
            "spawn w (calls st1) (cwd st1) argvL = Some listing" "returncode listing = 0"
    and ps': "paths = map basename (filter (\<lambda>file. file \<in> files) (splitlines (stdout listing)))"
             "paths \<noteq> []"
    and pre: "ruff w st1 [] = Inr prefix"
    and pb: "process_bucket w a (dir, files) rc st = Inr (rc', st')"
  shows "(\<exists>n \<le> length cmds.
            calls st' = calls st1 @ (cwd st1, argvL) #
                          map (\<lambda>ic. (cwd st1, prefix @ snd ic @ paths)) (take n (sort_key fst cmds)) \<and>
            (recorded st' = recorded st \<longrightarrow> n = length cmds)) \<and>
         sorted (map fst (sort_key fst cmds)) \<and>
         set (sort_key fst cmds) = set cmds \<and> length (sort_key fst cmds) = length cmds \<and>
         (list_all2 (declares name) lines decls \<and> decls \<noteq> [] \<and> distinct (map fst decls) \<and>
            last_char closing = Inr (CHR '']'') \<and> modes st0 = [] \<and>
            ruff w st0 show_settings_args = Inr argvP \<and>
            spawn w (calls st0) (cwd st0) argvP = Some result \<and> returncode result = 0 \<and>
            splitlines (stdout result) = ''linter.builtins = ['' # lines @ closing # post \<longrightarrow>
          process_sentinels w sentinels_map st0
            = Inr (st0\<lparr>calls := calls st0 @ [(cwd st0, argvP)], modes := [(name, decls)]\<rparr>))"
proof (intro conjI impI)
  let ?stL = "st1\<lparr>calls := calls st1 @ [(cwd st1, argvL)]\<rparr>"
  have r1: "recorded st1 = recorded st"
    using process_sentinels_frame [OF ps] by (simp add: reset_def)
  have cL: "call w st1 argvL = Inr (listing, ?stL)" using ls(2) by (rule call_spawn)
  have unfold: "process_bucket w a (dir, files) rc st =
      (case run_cmds w (sort_key fst cmds) paths ?stL of
         Inl e \<Rightarrow> Inl e
       | Inr (None, st3) \<Rightarrow> Inr (rc, st3)
       | Inr (Some code, st3) \<Rightarrow> Inr (max code rc, st3\<lparr>recorded := recorded st3 @ [code]\<rparr>))"
    using ok ps md ls(1,3) cL ps'(2) unfolding ps'(1) by (simp add: process_bucket_def)
  from pb obtain res st3 where
    rc: "run_cmds w (sort_key fst cmds) paths ?stL = Inr (res, st3)"
    unfolding unfold by (cases "run_cmds w (sort_key fst cmds) paths ?stL") auto
  have r3: "recorded st3 = recorded st" using run_cmds_frame [OF rc] r1 by simp
  from pb [unfolded unfold rc]
  have "(res = None \<and> st' = st3) \<or>
        (\<exists>code. res = Some code \<and> st' = st3\<lparr>recorded := recorded st3 @ [code]\<rparr>)"
    by (cases res) auto
  with r3 have fin: "calls st' = calls st3" "recorded st' = recorded st \<longrightarrow> res = None"
    by auto
  have "ruff w ?stL [] = Inr prefix" using pre by simp
  from run_cmds_calls [OF rc this] obtain n where
    n: "n \<le> length (sort_key fst cmds)"
       "calls st3 = calls ?stL @ map (\<lambda>ic. (cwd ?stL, prefix @ snd ic @ paths))
                                     (take n (sort_key fst cmds))"
       "res = None \<longrightarrow> n = length (sort_key fst cmds)" by blast
  with fin show "\<exists>n \<le> length cmds.
            calls st' = calls st1 @ (cwd st1, argvL) #
                          map (\<lambda>ic. (cwd st1, prefix @ snd ic @ paths)) (take n (sort_key fst cmds)) \<and>
            (recorded st' = recorded st \<longrightarrow> n = length cmds)"
    by (intro exI [of _ n]) simp
next
  show "sorted (map fst (sort_key fst cmds))" by (rule sorted_sort_key)
  show "set (sort_key fst cmds) = set cmds" by simp
  show "length (sort_key fst cmds) = length cmds" by simp
next
  assume h: "list_all2 (declares name) lines decls \<and> decls \<noteq> [] \<and> distinct (map fst decls) \<and>
            last_char closing = Inr (CHR '']'') \<and> modes st0 = [] \<and>
            ruff w st0 show_settings_args = Inr argvP \<and>
            spawn w (calls st0) (cwd st0) argvP = Some result \<and> returncode result = 0 \<and>
            splitlines (stdout result) = ''linter.builtins = ['' # lines @ closing # post"
  let ?stP = "st0\<lparr>calls := calls st0 @ [(cwd st0, argvP)]\<rparr>"
  have c: "call w st0 argvP = Inr (result, ?stP)" using h by (intro call_spawn) simp
  have "scan_lines sentinels_map True (''linter.builtins = ['' # lines @ closing # post) ?stP
        = Inr (?stP\<lparr>modes := [(name, decls)]\<rparr>)"
    using h by (intro scan_declared_block) simp_all
  with h c show "process_sentinels w sentinels_map st0
            = Inr (st0\<lparr>calls := calls st0 @ [(cwd st0, argvP)], modes := [(name, decls)]\<rparr>)"
    by (simp add: process_sentinels_def)
qed

text \<open>
  The commands of the mode \<open>fixup\<close> are declared in the order 0, 5, 2: the registry holds them
  in that order and the run calls them in the order 0, 2, 5.
\<close>

theorem commands_run_in_ascending_index_order_witness:
  "process_sentinels (tool_world settings_fixup ''/w/src/x.py'') sentinels_map
       (reset ((init_state (tool_world settings_fixup ''/w/src/x.py''))\<lparr>cwd := ''/w/src''\<rparr>))
     = Inr \<lparr>exec = [],
            modes = [(''fixup'', [(0, [''check'', ''--fix'']), (5, [''check'', ''--add-noqa'']),
                                (2, [''format''])])],
            cwd = ''/w/src'',
            calls = [(''/w/src'', ''/usr/bin/ruff'' # show_settings_args)],
            recorded = []\<rparr> \<and>
   sorted (map fst (sort_key fst
     [(0::int, [''check'', ''--fix'']), (5, [''check'', ''--add-noqa'']), (2, [''format''])])) \<and>
   process_bucket (tool_world settings_fixup ''/w/src/x.py'') (batch_args ''fixup'' False)
       (''src'', {''/w/src/x.py''}) 0 (init_state (tool_world settings_fixup ''/w/src/x.py''))
     = Inr (0, \<lparr>exec = [],
                modes = [(''fixup'', [(0, [''check'', ''--fix'']), (5, [''check'', ''--add-noqa'']),
                                    (2, [''format''])])],
                cwd = ''/w/src'',
                calls = [(''/w/src'', ''/usr/bin/ruff'' # show_settings_args),
                         (''/w/src'', [''/usr/bin/ruff'', ''check'', ''--show-files'']),
                         (''/w/src'', [''/usr/bin/ruff'', ''check'', ''--fix'', ''x.py'']),
                         (''/w/src'', [''/usr/bin/ruff'', ''format'', ''x.py'']),
                         (''/w/src'', [''/usr/bin/ruff'', ''check'', ''--add-noqa'', ''x.py''])],
                recorded = []\<rparr>) \<and>
   run (tool_world settings_fixup ''/w/src/x.py'') (batch_args ''fixup'' False) [''src/x.py'']
     = Inr (0, \<lparr>exec = [],
                modes = [(''fixup'', [(0, [''check'', ''--fix'']), (5, [''check'', ''--add-noqa'']),
                                    (2, [''format''])])],
                cwd = ''/w/src'',
                calls = [(''/w/src'', ''/usr/bin/ruff'' # show_settings_args),
                         (''/w/src'', [''/usr/bin/ruff'', ''check'', ''--show-files'']),
                         (''/w/src'', [''/usr/bin/ruff'', ''check'', ''--fix'', ''x.py'']),
                         (''/w/src'', [''/usr/bin/ruff'', ''format'', ''x.py'']),
                         (''/w/src'', [''/usr/bin/ruff'', ''check'', ''--add-noqa'', ''x.py''])],
                recorded = []\<rparr>)"
proof -
  let ?w = "tool_world settings_fixup ''/w/src/x.py''"
  let ?a = "batch_args ''fixup'' False"
  let ?cmds = "[(0::int, [''check'', ''--fix'']), (5, [''check'', ''--add-noqa'']), (2, [''format''])]"
  let ?lines = "[''__RUFFWRAP_MODE_fixup_CMD_0__check --fix,'',
                 ''__RUFFWRAP_MODE_fixup_CMD_5__check --add-noqa,'',
                 ''__RUFFWRAP_MODE_fixup_CMD_2__format,'']"
  let ?probe = "(''/w/src'', ''/usr/bin/ruff'' # show_settings_args)"
  let ?argvL = "[''/usr/bin/ruff'', ''check'', ''--show-files'']"
  let ?ini = "init_state ?w"
  let ?rst = "reset (?ini\<lparr>cwd := ''/w/src''\<rparr>)"
  let ?st1 = "\<lparr>exec = [], modes = [(''fixup'', ?cmds)], cwd = ''/w/src'',
               calls = [?probe], recorded = []\<rparr>"
  let ?st' = "\<lparr>exec = [], modes = [(''fixup'', ?cmds)], cwd = ''/w/src'',
               calls = [?probe, (''/w/src'', ?argvL),
                        (''/w/src'', [''/usr/bin/ruff'', ''check'', ''--fix'', ''x.py'']),
                        (''/w/src'', [''/usr/bin/ruff'', ''format'', ''x.py'']),
                        (''/w/src'', [''/usr/bin/ruff'', ''check'', ''--add-noqa'', ''x.py''])],
               recorded = []\<rparr>"
  let ?listing = "\<lparr>returncode = 0, stdout = ''/w/src/x.py'', stderr = []\<rparr>"
  let ?result = "\<lparr>returncode = 0, stdout = settings_fixup, stderr = []\<rparr>"
  have ok: "chdir_ok ?w (initwd ?w @ ''/'' @ ''src'')" by code_simp
  have ps: "process_sentinels ?w sentinels_map (reset (?ini\<lparr>cwd := initwd ?w @ ''/'' @ ''src''\<rparr>))
            = Inr ?st1" by code_simp
  have md: "map_of (modes ?st1) (mode ?a) = Some ?cmds" by code_simp
  have ls: "ruff ?w ?st1 [''check'', ''--show-files''] = Inr ?argvL"
           "spawn ?w (calls ?st1) (cwd ?st1) ?argvL = Some ?listing"
           "returncode ?listing = 0" by code_simp+
  have ps': "[''x.py''] = map basename (filter (\<lambda>file. file \<in> {''/w/src/x.py''})
                                          (splitlines (stdout ?listing)))"
            "[''x.py''] \<noteq> []" by code_simp+
  have pre: "ruff ?w ?st1 [] = Inr [''/usr/bin/ruff'']" by code_simp
  have pb: "process_bucket ?w ?a (''src'', {''/w/src/x.py''}) 0 ?ini = Inr (0, ?st')" by code_simp
  have d: "list_all2 (declares ''fixup'') ?lines ?cmds \<and> ?cmds \<noteq> [] \<and> distinct (map fst ?cmds) \<and>
           last_char '']'' = Inr (CHR '']'') \<and> modes ?rst = [] \<and>
           ruff ?w ?rst show_settings_args = Inr (''/usr/bin/ruff'' # show_settings_args) \<and>
           spawn ?w (calls ?rst) (cwd ?rst) (''/usr/bin/ruff'' # show_settings_args) = Some ?result \<and>
           returncode ?result = 0 \<and>
           splitlines (stdout ?result) = ''linter.builtins = ['' # ?lines @ '']'' # []"
    by code_simp
  have e: "?rst\<lparr>calls := calls ?rst @ [(cwd ?rst, ''/usr/bin/ruff'' # show_settings_args)],
                modes := [(''fixup'', ?cmds)]\<rparr> = ?st1" by code_simp
  have r: "run ?w ?a [''src/x.py''] = Inr (0, ?st')" by code_simp
  note t = commands_run_in_ascending_index_order
         [OF ok ps md ls ps' pre pb, where name = "''fixup''" and lines = ?lines and decls = ?cmds
            and closing = "'']''" and ?st0.0 = ?rst and result = ?result and post = "[]"
            and argvP = "''/usr/bin/ruff'' # show_settings_args"]
  have u1: "sorted (map fst (sort_key fst ?cmds))"
    by (rule t [THEN conjunct2, THEN conjunct1])
  have u2: "process_sentinels ?w sentinels_map ?rst
             = Inr (?rst\<lparr>calls := calls ?rst @ [(cwd ?rst, ''/usr/bin/ruff'' # show_settings_args)],
                        modes := [(''fixup'', ?cmds)]\<rparr>)"
    by (rule t [THEN conjunct2, THEN conjunct2, THEN conjunct2, THEN conjunct2, THEN mp, OF d])
  have ps2: "process_sentinels ?w sentinels_map ?rst = Inr ?st1"
    using u2 unfolding e .
  show ?thesis by (intro conjI) (rule ps2 u1 pb r)+
qed

subsection \<open>C4: a failing command ends its bucket's sequence; the run returns the maximum\<close>

lemma process_bucket_recorded:
  assumes "process_bucket w a bucket rc st = Inr (rc', st')"
  shows "(rc' = rc \<and> recorded st' = recorded st) \<or>
         (\<exists>c. rc' = max c rc \<and> recorded st' = recorded st @ [c])"
proof -
  let ?st0 = "reset (st\<lparr>cwd := initwd w @ ''/'' @ fst bucket\<rparr>)"
  from assms obtain st1 where ps: "process_sentinels w sentinels_map ?st0 = Inr st1"
    by (auto simp: process_bucket_def Let_def split: if_splits sum.splits)
  from process_sentinels_frame [OF ps] have r1: "recorded st1 = recorded st"
    by (simp add: reset_def)
  from assms have ok: "chdir_ok w (initwd w @ ''/'' @ fst bucket)"
    by (auto simp: process_bucket_def Let_def split: if_splits)
  show ?thesis
  proof (cases "map_of (modes st1) (mode a)")
    case None
    with assms ok ps r1 show ?thesis
      by (auto simp: process_bucket_def Let_def split: if_splits)
  next
    case (Some cmds)
    with assms ok ps obtain argv listing st2 where
      r: "ruff w st1 [''check'', ''--show-files''] = Inr argv" and
      c: "call w st1 argv = Inr (listing, st2)"
      by (auto simp: process_bucket_def Let_def split: sum.splits)
    have r2: "recorded st2 = recorded st" using call_Inr [OF c] r1 by simp
    let ?paths = "map basename (filter (\<lambda>file. file \<in> snd bucket) (splitlines (stdout listing)))"
    show ?thesis
    proof (cases "?paths = []")
      case True
      with assms ok ps Some r c r2 show ?thesis
        by (auto simp: process_bucket_def Let_def split: if_splits)
    next
      case False
      with assms ok ps Some r c obtain res st3 where
        rc: "run_cmds w (sort_key fst cmds) ?paths st2 = Inr (res, st3)"
        by (auto simp: process_bucket_def Let_def split: if_splits sum.splits)
      from run_cmds_frame [OF rc] r2 have r3: "recorded st3 = recorded st" by simp
      from assms ok ps Some r c False rc r3 show ?thesis
        by (cases res) (auto simp: process_bucket_def Let_def split: if_splits)
    qed
  qed
qed

lemma run_buckets_max:
  "run_buckets w a bs rc st = Inr (r, st') \<Longrightarrow>
   \<exists>new. recorded st' = recorded st @ new \<and> r = Max (set (rc # new))"
proof (induction bs arbitrary: rc st)
  case Nil
  then show ?case by simp
next
  case (Cons b bs)
  from Cons.prems obtain rc1 st1 where
    pb: "process_bucket w a b rc st = Inr (rc1, st1)" and
    rb: "run_buckets w a bs rc1 st1 = Inr (r, st')"
    by (auto split: sum.splits)
  from Cons.IH [OF rb] obtain new where
    new: "recorded st' = recorded st1 @ new" "r = Max (set (rc1 # new))" by blast
  from process_bucket_recorded [OF pb] show ?case
  proof
    assume "rc1 = rc \<and> recorded st1 = recorded st"
    with new show ?thesis by auto
  next
    assume "\<exists>c. rc1 = max c rc \<and> recorded st1 = recorded st @ [c]"
    then obtain c where c: "rc1 = max c rc" "recorded st1 = recorded st @ [c]" by blast
    have "Max (set (max c rc # new)) = Max (set (rc # c # new))"
      by (cases new) (simp_all add: max.commute max.left_commute)
    with new c show ?thesis by (intro exI [of _ "c # new"]) simp
  qed
qed

lemma run_max:
  assumes "fst (get_paths_from_args as)" and "run w a as = Inr (r, fin)"
  shows "r = Max (set (0 # recorded fin))"
proof (cases "skip w")
  case True
  with assms(2) have "r = 0" "recorded fin = []" by (auto simp: run_def init_state_def)
  then show ?thesis by simp
next
  case False
  from assms(1) obtain paths where g: "get_paths_from_args as = (True, paths)"
    by (cases "get_paths_from_args as") auto
  with False assms(2) obtain fbd where
    "run_buckets w a (buckets_in_order fbd) 0 (init_state w) = Inr (r, fin)"
    by (auto simp: run_def split: sum.splits)
  from run_buckets_max [OF this] show ?thesis by (auto simp: init_state_def)
qed

text \<open>
  Claim C4. In a bucket that reaches the command loop with the sequence A, B, C, where A
  exits with 0 and B with a non-zero code: the calls made for the bucket are the settings
  probe, the file listing, A and B, so C is not invoked; the code of B is recorded and folded
  into the return code; the loop over the buckets goes on with the remaining buckets. A run
  on well-formed arguments returns the maximum of 0 and the codes recorded: 0 when none was
  recorded, and the maximum of the recorded codes when none of them is negative.
\<close>

theorem failing_command_ends_sequence_and_run_returns_maximum:
  assumes ok: "chdir_ok w (initwd w @ ''/'' @ dir)"
    and ps: "process_sentinels w sentinels_map (reset (st\<lparr>cwd := initwd w @ ''/'' @ dir\<rparr>)) = Inr st1"
    and md: "map_of (modes st1) (mode a) = Some cmds"
    and seq: "sort_key fst cmds = [(iA, cmdA), (iB, cmdB), (iC, cmdC)]"
    and ls: "ruff w st1 [''check'', ''--show-files''] = Inr argvL"
            "spawn w (calls st1) (cwd st1) argvL = Some listing" "returncode listing = 0"
    and ps': "paths = map basename (filter (\<lambda>file. file \<in> files) (splitlines (stdout listing)))"
             "paths \<noteq> []"
    and A: "ruff w st1 (cmdA @ paths) = Inr argvA"
           "spawn w (calls st1 @ [(cwd st1, argvL)]) (cwd st1) argvA = Some resultA"
           "returncode resultA = 0"
    and B: "ruff w st1 (cmdB @ paths) = Inr argvB"
           "spawn w (calls st1 @ [(cwd st1, argvL), (cwd st1, argvA)]) (cwd st1) argvB = Some resultB"
           "returncode resultB \<noteq> 0"
  shows "process_bucket w a (dir, files) rc st
           = Inr (max (returncode resultB) rc,
                  st1\<lparr>calls := calls st1 @ [(cwd st1, argvL), (cwd st1, argvA), (cwd st1, argvB)],
                      recorded := recorded st @ [returncode resultB]\<rparr>) \<and>
         run_buckets w a ((dir, files) # rest) rc st
           = run_buckets w a rest (max (returncode resultB) rc)
               (st1\<lparr>calls := calls st1 @ [(cwd st1, argvL), (cwd st1, argvA), (cwd st1, argvB)],
                    recorded := recorded st @ [returncode resultB]\<rparr>) \<and>
         (fst (get_paths_from_args as) \<and> run w a as = Inr (r, fin) \<longrightarrow>
            r = Max (set (0 # recorded fin)) \<and>
            (recorded fin = [] \<longrightarrow> r = 0) \<and>
            (recorded fin \<noteq> [] \<and> (\<forall>c \<in> set (recorded fin). 0 \<le> c) \<longrightarrow>
               r = Max (set (recorded fin))))"
proof (intro conjI impI)
  let ?stL = "st1\<lparr>calls := calls st1 @ [(cwd st1, argvL)]\<rparr>"
  let ?stA = "?stL\<lparr>calls := calls ?stL @ [(cwd ?stL, argvA)]\<rparr>"
  let ?stB = "?stA\<lparr>calls := calls ?stA @ [(cwd ?stA, argvB)]\<rparr>"
  have r1: "recorded st1 = recorded st"
    using process_sentinels_frame [OF ps] by (simp add: reset_def)
  have cL: "call w st1 argvL = Inr (listing, ?stL)" using ls(2) by (rule call_spawn)
  have cA: "call w ?stL argvA = Inr (resultA, ?stA)" using A(2) by (intro call_spawn) simp
  have cB: "call w ?stA argvB = Inr (resultB, ?stB)" using B(2) by (intro call_spawn) simp
  have "run_cmds w [(iA, cmdA), (iB, cmdB), (iC, cmdC)] paths ?stL
          = Inr (Some (returncode resultB), ?stB)"
    using A(1,3) B(1,3) cA cB by simp
  with ok ps md seq ls(1,3) cL ps' r1
  show pb: "process_bucket w a (dir, files) rc st
           = Inr (max (returncode resultB) rc,
                  st1\<lparr>calls := calls st1 @ [(cwd st1, argvL), (cwd st1, argvA), (cwd st1, argvB)],
                      recorded := recorded st @ [returncode resultB]\<rparr>)"
    by (simp add: process_bucket_def)
  then show "run_buckets w a ((dir, files) # rest) rc st
           = run_buckets w a rest (max (returncode resultB) rc)
               (st1\<lparr>calls := calls st1 @ [(cwd st1, argvL), (cwd st1, argvA), (cwd st1, argvB)],
                    recorded := recorded st @ [returncode resultB]\<rparr>)"
    by simp
next
  assume "fst (get_paths_from_args as) \<and> run w a as = Inr (r, fin)"
  then show "r = Max (set (0 # recorded fin))" by (intro run_max [of as w a]) auto
next
  assume "fst (get_paths_from_args as) \<and> run w a as = Inr (r, fin)"
  then have "r = Max (set (0 # recorded fin))" by (intro run_max [of as w a]) auto
  moreover assume "recorded fin = []"
  ultimately show "r = 0" by simp
next
  assume "fst (get_paths_from_args as) \<and> run w a as = Inr (r, fin)"
  then have m: "r = Max (set (0 # recorded fin))" by (intro run_max [of as w a]) auto
  assume n: "recorded fin \<noteq> [] \<and> (\<forall>c \<in> set (recorded fin). 0 \<le> c)"
  then have "0 \<le> Max (set (recorded fin))"
    by (meson List.finite_set Max_in set_empty)
  with m n show "r = Max (set (recorded fin))" by (simp add: max_def)
qed

text \<open>
  Two buckets, \<open>a/b\<close> before \<open>a\<close>, in the mode \<open>gate\<close>: in each the second command exits
  with 2 and the third is not called; the run returns 2.
\<close>

theorem failing_command_ends_sequence_and_run_returns_maximum_witness:
  "process_bucket (tool_world settings_gate (text_of_lines [''/w/a/b/x.py'', ''/w/a/y.py'']))
       (batch_args ''gate'' False) (''a/b'', {''/w/a/b/x.py''}) 0
       (init_state (tool_world settings_gate (text_of_lines [''/w/a/b/x.py'', ''/w/a/y.py''])))
     = Inr (2, \<lparr>exec = [],
                modes = [(''gate'', [(0, [''check'', ''--no-fix'']), (1, [''format'', ''--check'']),
                                   (2, [''check'', ''--add-noqa''])])],
                cwd = ''/w/a/b'',
                calls = [(''/w/a/b'', ''/usr/bin/ruff'' # show_settings_args),
                         (''/w/a/b'', [''/usr/bin/ruff'', ''check'', ''--show-files'']),
                         (''/w/a/b'', [''/usr/bin/ruff'', ''check'', ''--no-fix'', ''x.py'']),
                         (''/w/a/b'', [''/usr/bin/ruff'', ''format'', ''--check'', ''x.py''])],
                recorded = [2]\<rparr>) \<and>
   run (tool_world settings_gate (text_of_lines [''/w/a/b/x.py'', ''/w/a/y.py'']))
       (batch_args ''gate'' False) [''a/y.py'', ''a/b/x.py'']
     = Inr (2, \<lparr>exec = [],
                modes = [(''gate'', [(0, [''check'', ''--no-fix'']), (1, [''format'', ''--check'']),
                                   (2, [''check'', ''--add-noqa''])])],
                cwd = ''/w/a'',
                calls = [(''/w/a/b'', ''/usr/bin/ruff'' # show_settings_args),
                         (''/w/a/b'', [''/usr/bin/ruff'', ''check'', ''--show-files'']),
                         (''/w/a/b'', [''/usr/bin/ruff'', ''check'', ''--no-fix'', ''x.py'']),
                         (''/w/a/b'', [''/usr/bin/ruff'', ''format'', ''--check'', ''x.py'']),
                         (''/w/a'', ''/usr/bin/ruff'' # show_settings_args),
                         (''/w/a'', [''/usr/bin/ruff'', ''check'', ''--show-files'']),
                         (''/w/a'', [''/usr/bin/ruff'', ''check'', ''--no-fix'', ''y.py'']),
                         (''/w/a'', [''/usr/bin/ruff'', ''format'', ''--check'', ''y.py''])],
                recorded = [2, 2]\<rparr>) \<and>
   (2::int) = Max (set [2, 2])"
proof -
  let ?w = "tool_world settings_gate (text_of_lines [''/w/a/b/x.py'', ''/w/a/y.py''])"
  let ?a = "batch_args ''gate'' False"
  let ?cmds = "[(0::int, [''check'', ''--no-fix'']), (1, [''format'', ''--check'']),
                (2, [''check'', ''--add-noqa''])]"
  let ?probe = "\<lambda>d. (d, ''/usr/bin/ruff'' # show_settings_args)"
  let ?st1 = "\<lparr>exec = [], modes = [(''gate'', ?cmds)], cwd = ''/w/a/b'',
               calls = [?probe ''/w/a/b''], recorded = []\<rparr>"
  let ?argvL = "[''/usr/bin/ruff'', ''check'', ''--show-files'']"
  let ?argvA = "[''/usr/bin/ruff'', ''check'', ''--no-fix'', ''x.py'']"
  let ?argvB = "[''/usr/bin/ruff'', ''format'', ''--check'', ''x.py'']"
  let ?listing = "\<lparr>returncode = 0, stdout = text_of_lines [''/w/a/b/x.py'', ''/w/a/y.py''],
                   stderr = []\<rparr>"
  let ?resultA = "\<lparr>returncode = 0, stdout = [], stderr = []\<rparr>"
  let ?resultB = "\<lparr>returncode = 2, stdout = [], stderr = []\<rparr>"
  let ?fin = "\<lparr>exec = [], modes = [(''gate'', ?cmds)], cwd = ''/w/a'',
               calls = [?probe ''/w/a/b'', (''/w/a/b'', ?argvL), (''/w/a/b'', ?argvA),
                        (''/w/a/b'', ?argvB),
                        ?probe ''/w/a'', (''/w/a'', ?argvL),
                        (''/w/a'', [''/usr/bin/ruff'', ''check'', ''--no-fix'', ''y.py'']),
                        (''/w/a'', [''/usr/bin/ruff'', ''format'', ''--check'', ''y.py''])],
               recorded = [2, 2]\<rparr>"
  have ok: "chdir_ok ?w (initwd ?w @ ''/'' @ ''a/b'')" by code_simp
  have ps: "process_sentinels ?w sentinels_map (reset ((init_state ?w)\<lparr>cwd := initwd ?w @ ''/'' @ ''a/b''\<rparr>))
            = Inr ?st1" by code_simp
  have md: "map_of (modes ?st1) (mode ?a) = Some ?cmds" by code_simp
  have seq: "sort_key fst ?cmds = [(0, [''check'', ''--no-fix'']), (1, [''format'', ''--check'']),
                                   (2, [''check'', ''--add-noqa''])]" by code_simp
  have ls: "ruff ?w ?st1 [''check'', ''--show-files''] = Inr ?argvL"
           "spawn ?w (calls ?st1) (cwd ?st1) ?argvL = Some ?listing"
           "returncode ?listing = 0" by code_simp+
  have ps': "[''x.py''] = map basename (filter (\<lambda>file. file \<in> {''/w/a/b/x.py''})
                                          (splitlines (stdout ?listing)))"
            "[''x.py''] \<noteq> []" by code_simp+
  have A: "ruff ?w ?st1 ([''check'', ''--no-fix''] @ [''x.py'']) = Inr ?argvA"
          "spawn ?w (calls ?st1 @ [(cwd ?st1, ?argvL)]) (cwd ?st1) ?argvA = Some ?resultA"
          "returncode ?resultA = 0" by code_simp+
  have B: "ruff ?w ?st1 ([''format'', ''--check''] @ [''x.py'']) = Inr ?argvB"
          "spawn ?w (calls ?st1 @ [(cwd ?st1, ?argvL), (cwd ?st1, ?argvA)]) (cwd ?st1) ?argvB
             = Some ?resultB"
          "returncode ?resultB \<noteq> 0" by code_simp+
  have g: "fst (get_paths_from_args [''a/y.py'', ''a/b/x.py''])" by code_simp
  have r: "run ?w ?a [''a/y.py'', ''a/b/x.py''] = Inr (2, ?fin)" by code_simp
  have e: "recorded (init_state ?w) = []" "recorded ?fin = [2, 2]" "recorded ?fin \<noteq> []"
          "\<forall>c \<in> set (recorded ?fin). 0 \<le> c" by code_simp+
  from failing_command_ends_sequence_and_run_returns_maximum
         [OF ok ps md seq ls ps' A B, where rc = 0 and as = "[''a/y.py'', ''a/b/x.py'']"
            and r = 2 and fin = ?fin and rest = "[(''a'', {''/w/a/y.py''})]"]
       g r e
  show ?thesis by simp
qed

subsection \<open>C5: grouping the paths by directory and depth\<close>

lemma startswith_slash: "startswith s ''/'' = (\<exists>t. s = CHR ''/'' # t)"
  by (cases s) auto

lemma normpath_rooted: "startswith q ''/'' \<Longrightarrow> startswith (normpath q) ''/''"
  by (auto simp: normpath_def Let_def startswith_slash numeral_2_eq_2)

lemma abspath_rooted: "startswith wd ''/'' \<Longrightarrow> startswith (abspath wd p) ''/''"
  unfolding abspath_def
  by (rule normpath_rooted) (auto simp: path_join_def startswith_slash)

lemma dirname_rooted_nonempty:
  assumes "startswith q ''/''"
  shows "dirname q \<noteq> []"
proof -
  let ?head = "rev (dropWhile (\<lambda>c. c \<noteq> CHR ''/'') (rev q))"
  from assms have "CHR ''/'' \<in> set (rev q)" by (auto simp: startswith_slash)
  then have h: "?head \<noteq> []" by (simp add: dropWhile_eq_Nil_conv)
  show ?thesis
  proof (cases "list_all (\<lambda>c. c = CHR ''/'') ?head")
    case True
    with h show ?thesis by (simp add: dirname_def Let_def)
  next
    case False
    then have "\<exists>c \<in> set (rev ?head). c \<noteq> CHR ''/''" by (auto simp: list_all_iff)
    then have "dropWhile (\<lambda>c. c = CHR ''/'') (rev ?head) \<noteq> []"
      by (simp only: dropWhile_eq_Nil_conv) blast
    with False h show ?thesis by (simp add: dirname_def Let_def)
  qed
qed

lemma relpath_total: "path \<noteq> [] \<Longrightarrow> \<exists>d. relpath wd path start = Inr d"
  by (simp add: relpath_def Let_def)

lemma file_dir_total:
  "startswith wd ''/'' \<Longrightarrow> \<exists>d. relpath wd (dirname (abspath wd p)) start = Inr d"
  by (intro relpath_total dirname_rooted_nonempty abspath_rooted)

lemma set_update_subset: "set (AList.update k v al) \<subseteq> insert (k, v) (set al)"
  by (induction al) auto

lemma members_step:
  "members (AList.update depth
             (AList.update d
                (insert a (case map_of (case map_of fbd depth of None \<Rightarrow> [] | Some x \<Rightarrow> x) d of
                             None \<Rightarrow> {} | Some f \<Rightarrow> f))
                (case map_of fbd depth of None \<Rightarrow> [] | Some x \<Rightarrow> x))
             fbd)
   = insert (depth, d, a) (members fbd)"
  by (auto simp: members_def update_conv' split: option.splits if_splits)

lemma grouped_step:
  assumes g: "grouped fbd" and d: "count_sep d = depth"
  shows "grouped (AList.update depth
                   (AList.update d fs (case map_of fbd depth of None \<Rightarrow> [] | Some x \<Rightarrow> x)) fbd)"
proof -
  let ?dirs = "case map_of fbd depth of None \<Rightarrow> [] | Some x \<Rightarrow> x"
  have dirs: "distinct (map fst ?dirs) \<and> (\<forall>dir \<in> fst ` set ?dirs. count_sep dir = depth)"
  proof (cases "map_of fbd depth")
    case None
    then show ?thesis by simp
  next
    case (Some x)
    then have "(depth, x) \<in> set fbd" by (rule map_of_SomeD)
    with g Some show ?thesis by (auto simp: grouped_def)
  qed
  have new: "distinct (map fst (AList.update d fs ?dirs)) \<and>
             (\<forall>dir \<in> fst ` set (AList.update d fs ?dirs). count_sep dir = depth)"
    using dirs d by (simp add: distinct_update dom_update)
  have "distinct (map fst (AList.update depth (AList.update d fs ?dirs) fbd))"
    using g by (simp add: grouped_def distinct_update)
  moreover have "\<forall>(dp, ds) \<in> set (AList.update depth (AList.update d fs ?dirs) fbd).
                   distinct (map fst ds) \<and> (\<forall>dir \<in> fst ` set ds. count_sep dir = dp)"
  proof (clarify)
    fix dp ds
    assume "(dp, ds) \<in> set (AList.update depth (AList.update d fs ?dirs) fbd)"
    with set_update_subset [of depth "AList.update d fs ?dirs" fbd]
    have "(dp, ds) = (depth, AList.update d fs ?dirs) \<or> (dp, ds) \<in> set fbd" by auto
    then show "distinct (map fst ds) \<and> (\<forall>dir \<in> fst ` set ds. count_sep dir = dp)"
    proof
      assume "(dp, ds) = (depth, AList.update d fs ?dirs)"
      with new show ?thesis by simp
    next
      assume "(dp, ds) \<in> set fbd"
      with g show ?thesis by (auto simp: grouped_def)
    qed
  qed
  ultimately show ?thesis by (simp add: grouped_def)
qed

lemma get_files_by_depth_loop_members:
  assumes "startswith wd ''/''"
  shows "\<exists>fbd'. get_files_by_depth_loop w wd paths fbd = Inr fbd' \<and>
           (grouped fbd \<longrightarrow> grouped fbd') \<and>
           members fbd' = members fbd \<union>
             {(count_sep d, d, abspath wd p) | p d.
                p \<in> set paths \<and> \<not> isdir w p \<and>
                relpath wd (dirname (abspath wd p)) (initwd w) = Inr d}"
proof (induction paths arbitrary: fbd)
  case Nil
  show ?case by simp
next
  case (Cons path paths)
  show ?case
  proof (cases "isdir w path")
    case True
    from Cons.IH [of fbd] obtain fbd' where
      "get_files_by_depth_loop w wd paths fbd = Inr fbd'" "grouped fbd \<longrightarrow> grouped fbd'"
      "members fbd' = members fbd \<union>
             {(count_sep d, d, abspath wd p) | p d.
                p \<in> set paths \<and> \<not> isdir w p \<and>
                relpath wd (dirname (abspath wd p)) (initwd w) = Inr d}" by blast
    with True show ?thesis by (intro exI [of _ fbd']) auto
  next
    case False
    from file_dir_total [OF assms] obtain d where
      d: "relpath wd (dirname (abspath wd path)) (initwd w) = Inr d" by blast
    let ?dirs = "case map_of fbd (count_sep d) of None \<Rightarrow> [] | Some x \<Rightarrow> x"
    let ?files = "case map_of ?dirs d of None \<Rightarrow> {} | Some f \<Rightarrow> f"
    let ?next = "AList.update (count_sep d)
                   (AList.update d (insert (abspath wd path) ?files) ?dirs) fbd"
    have step: "get_files_by_depth_loop w wd (path # paths) fbd
                = get_files_by_depth_loop w wd paths ?next"
      using False d by (simp add: Let_def)
    have m: "members ?next = insert (count_sep d, d, abspath wd path) (members fbd)"
      by (rule members_step)
    have g: "grouped fbd \<longrightarrow> grouped ?next" by (auto intro: grouped_step)
    from Cons.IH [of ?next] obtain fbd' where
      r: "get_files_by_depth_loop w wd paths ?next = Inr fbd'" "grouped ?next \<longrightarrow> grouped fbd'"
      "members fbd' = members ?next \<union>
             {(count_sep d, d, abspath wd p) | p d.
                p \<in> set paths \<and> \<not> isdir w p \<and>
                relpath wd (dirname (abspath wd p)) (initwd w) = Inr d}" by blast
    have "members fbd' = members fbd \<union>
             {(count_sep d, d, abspath wd p) | p d.
                p \<in> set (path # paths) \<and> \<not> isdir w p \<and>
                relpath wd (dirname (abspath wd p)) (initwd w) = Inr d}"
      unfolding r(3) m using False d by auto
    with step r(1,2) g show ?thesis by (intro exI [of _ fbd']) simp
  qed
qed

lemma set_buckets_in_order: "set (buckets_in_order fbd) = (\<Union>(dp, ds) \<in> set fbd. set ds)"
  by (auto simp: buckets_in_order_def)

lemma bucket_members:
  assumes g: "grouped fbd" and b: "(dir, files) \<in> set (buckets_in_order fbd)" and f: "f \<in> files"
  shows "(count_sep dir, dir, f) \<in> members fbd"
proof -
  from b obtain dp ds where e: "(dp, ds) \<in> set fbd" "(dir, files) \<in> set ds"
    by (auto simp: set_buckets_in_order)
  from g e have c: "count_sep dir = dp" and dd: "distinct (map fst ds)"
    by (force simp: grouped_def)+
  from g e(1) have "map_of fbd dp = Some ds" by (simp add: grouped_def)
  moreover from dd e(2) have "map_of ds dir = Some files" by simp
  ultimately show ?thesis using f c by (auto simp: members_def)
qed

lemma members_bucket:
  assumes "(dp, dir, f) \<in> members fbd"
  shows "\<exists>files. (dir, files) \<in> set (buckets_in_order fbd) \<and> f \<in> files"
proof -
  from assms obtain ds files where
    "map_of fbd dp = Some ds" "map_of ds dir = Some files" "f \<in> files"
    by (auto simp: members_def)
  then have "(dp, ds) \<in> set fbd" "(dir, files) \<in> set ds" "f \<in> files"
    by (auto dest: map_of_SomeD)
  then show ?thesis by (auto simp: set_buckets_in_order)
qed

lemma distinct_concat_groups:
  "distinct (map fst L) \<Longrightarrow>
   \<forall>(dp, ds) \<in> set L. distinct (map fst ds) \<and> (\<forall>dir \<in> fst ` set ds. count_sep dir = dp) \<Longrightarrow>
   distinct (map fst (concat (map snd L)))"
proof (induction L)
  case Nil
  then show ?case by simp
next
  case (Cons e L)
  obtain dp ds where e: "e = (dp, ds)" by (cases e)
  have tl: "distinct (map fst (concat (map snd L)))" using Cons by simp
  have "fst ` set ds \<inter> fst ` set (concat (map snd L)) = {}"
  proof (rule ccontr)
    assume "fst ` set ds \<inter> fst ` set (concat (map snd L)) \<noteq> {}"
    then obtain dir where d1: "dir \<in> fst ` set ds" and d2: "dir \<in> fst ` set (concat (map snd L))"
      by blast
    from d2 obtain dp' ds' where e': "(dp', ds') \<in> set L" "dir \<in> fst ` set ds'" by force
    from Cons.prems(2) e d1 have "count_sep dir = dp" by auto
    moreover from Cons.prems(2) e' have "count_sep dir = dp'" by auto
    ultimately have "dp \<in> fst ` set L" using e'(1) by force
    with Cons.prems(1) e show False by simp
  qed
  with tl Cons.prems(2) e show ?case by (auto simp: image_iff)
qed

lemma distinct_map_fst_sort_key:
  "distinct (map fst (sort_key k xs)) = distinct (map fst xs)"
  by (simp add: distinct_map)

lemma buckets_distinct:
  assumes "grouped fbd"
  shows "distinct (map fst (buckets_in_order fbd))"
  unfolding buckets_in_order_def
  using assms by (intro distinct_concat_groups) (auto simp: grouped_def distinct_map_fst_sort_key)

lemma sorted_wrt_all: "(\<forall>x \<in> set xs. \<forall>y \<in> set xs. R x y) \<Longrightarrow> sorted_wrt R xs"
  by (induction xs) auto

lemma sorted_concat_groups:
  "sorted_wrt (\<lambda>e1 e2. fst e2 \<le> fst e1) L \<Longrightarrow>
   \<forall>(dp, ds) \<in> set L. \<forall>dir \<in> fst ` set ds. count_sep dir = dp \<Longrightarrow>
   sorted_wrt (\<lambda>b1 b2. count_sep (fst b2) \<le> count_sep (fst b1)) (concat (map snd L))"
proof (induction L)
  case Nil
  then show ?case by simp
next
  case (Cons e L)
  obtain dp ds where e: "e = (dp, ds)" by (cases e)
  have own: "\<forall>b \<in> set ds. count_sep (fst b) = dp" using Cons.prems(2) e by auto
  have later: "\<forall>b \<in> set (concat (map snd L)). count_sep (fst b) \<le> dp"
  proof
    fix b assume "b \<in> set (concat (map snd L))"
    then obtain dp' ds' where e': "(dp', ds') \<in> set L" "b \<in> set ds'" by force
    with Cons.prems(2) have "count_sep (fst b) = dp'" by auto
    moreover from Cons.prems(1) e e'(1) have "dp' \<le> dp" by auto
    ultimately show "count_sep (fst b) \<le> dp" by simp
  qed
  have "sorted_wrt (\<lambda>b1 b2. count_sep (fst b2) \<le> count_sep (fst b1)) ds"
    using own by (intro sorted_wrt_all) simp
  moreover have "sorted_wrt (\<lambda>b1 b2. count_sep (fst b2) \<le> count_sep (fst b1)) (concat (map snd L))"
    using Cons by simp
  ultimately show ?case using e own later by (simp add: sorted_wrt_append)
qed

lemma buckets_sorted:
  assumes "grouped fbd"
  shows "sorted_wrt (\<lambda>b1 b2. count_sep (fst b2) \<le> count_sep (fst b1)) (buckets_in_order fbd)"
proof -
  have "sorted (map (\<lambda>e. - int (fst e)) (sort_key (\<lambda>e. - int (fst e)) fbd))"
    by (rule sorted_sort_key)
  then have "sorted_wrt (\<lambda>e1 e2. fst e2 \<le> fst e1) (sort_key (\<lambda>e. - int (fst e)) fbd)"
    by (simp add: sorted_map)
  then show ?thesis
    unfolding buckets_in_order_def
    using assms by (intro sorted_concat_groups) (auto simp: grouped_def)
qed

lemma run_cmds_calls_cwd:
  "run_cmds w cmds paths st = Inr (res, st') \<Longrightarrow>
   \<exists>cs. calls st' = calls st @ cs \<and> (\<forall>c \<in> set cs. fst c = cwd st)"
proof (induction cmds arbitrary: st)
  case Nil
  then show ?case by simp
next
  case (Cons ic rest)
  obtain idx cmd where ic: "ic = (idx, cmd)" by (cases ic)
  from Cons.prems ic obtain argv p st1 where
    r: "ruff w st (cmd @ paths) = Inr argv" and c: "call w st argv = Inr (p, st1)"
    by (auto split: sum.splits)
  have st1: "st1 = st\<lparr>calls := calls st @ [(cwd st, argv)]\<rparr>" by (rule call_Inr [OF c])
  show ?case
  proof (cases "returncode p = 0")
    case True
    with Cons.prems ic r c have "run_cmds w rest paths st1 = Inr (res, st')" by simp
    from Cons.IH [OF this] obtain cs where
      "calls st' = calls st1 @ cs" "\<forall>c \<in> set cs. fst c = cwd st1" by blast
    with st1 show ?thesis by (intro exI [of _ "(cwd st, argv) # cs"]) simp
  next
    case False
    with Cons.prems ic r c have "st' = st1" by simp
    with st1 show ?thesis by (intro exI [of _ "[(cwd st, argv)]"]) simp
  qed
qed

lemma process_bucket_calls:
  assumes "process_bucket w a bucket rc st = Inr (rc', st')"
  shows "\<exists>cs. cs \<noteq> [] \<and> calls st' = calls st @ cs \<and>
              (\<forall>c \<in> set cs. fst c = initwd w @ ''/'' @ fst bucket)"
proof -
  let ?d = "initwd w @ ''/'' @ fst bucket"
  let ?st0 = "reset (st\<lparr>cwd := ?d\<rparr>)"
  from assms obtain st1 where ps: "process_sentinels w sentinels_map ?st0 = Inr st1"
    by (auto simp: process_bucket_def Let_def split: if_splits sum.splits)
  from process_sentinels_frame [OF ps] obtain argvP where
    f1: "cwd st1 = ?d" "calls st1 = calls st @ [(?d, argvP)]"
    by (auto simp: reset_def)
  from assms have ok: "chdir_ok w ?d"
    by (auto simp: process_bucket_def Let_def split: if_splits)
  show ?thesis
  proof (cases "map_of (modes st1) (mode a)")
    case None
    with assms ok ps have "calls st' = calls st1"
      by (auto simp: process_bucket_def Let_def split: if_splits)
    with f1 show ?thesis by (intro exI [of _ "[(?d, argvP)]"]) simp
  next
    case (Some cmds)
    with assms ok ps obtain argv listing st2 where
      r: "ruff w st1 [''check'', ''--show-files''] = Inr argv" and
      c: "call w st1 argv = Inr (listing, st2)"
      by (auto simp: process_bucket_def Let_def split: sum.splits)
    have f2: "cwd st2 = ?d" "calls st2 = calls st @ [(?d, argvP), (?d, argv)]"
      using call_Inr [OF c] f1 by simp_all
    let ?paths = "map basename (filter (\<lambda>file. file \<in> snd bucket) (splitlines (stdout listing)))"
    show ?thesis
    proof (cases "?paths = []")
      case True
      with assms ok ps Some r c have "calls st' = calls st2"
        by (auto simp: process_bucket_def Let_def split: if_splits)
      with f2 show ?thesis by (intro exI [of _ "[(?d, argvP), (?d, argv)]"]) simp
    next
      case False
      with assms ok ps Some r c obtain res st3 where
        rc: "run_cmds w (sort_key fst cmds) ?paths st2 = Inr (res, st3)"
        by (auto simp: process_bucket_def Let_def split: if_splits sum.splits)
      from run_cmds_calls_cwd [OF rc] obtain cs where
        cs: "calls st3 = calls st2 @ cs" "\<forall>c \<in> set cs. fst c = cwd st2" by blast
      from assms ok ps Some r c False rc have "calls st' = calls st3"
        by (cases res) (auto simp: process_bucket_def Let_def split: if_splits)
      with cs f2 show ?thesis
        by (intro exI [of _ "(?d, argvP) # (?d, argv) # cs"]) simp
    qed
  qed
qed

lemma run_buckets_calls:
  "run_buckets w a bs rc st = Inr (r, st') \<Longrightarrow>
   \<exists>css. calls st' = calls st @ concat css \<and>
         list_all2 (\<lambda>b cs. cs \<noteq> [] \<and> (\<forall>c \<in> set cs. fst c = initwd w @ ''/'' @ fst b)) bs css"
proof (induction bs arbitrary: rc st)
  case Nil
  then show ?case by simp
next
  case (Cons b bs)
  from Cons.prems obtain rc1 st1 where
    pb: "process_bucket w a b rc st = Inr (rc1, st1)" and
    rb: "run_buckets w a bs rc1 st1 = Inr (r, st')"
    by (auto split: sum.splits)
  from process_bucket_calls [OF pb] obtain cs where
    cs: "cs \<noteq> []" "calls st1 = calls st @ cs" "\<forall>c \<in> set cs. fst c = initwd w @ ''/'' @ fst b"
    by blast
  from Cons.IH [OF rb] obtain css where
    css: "calls st' = calls st1 @ concat css"
         "list_all2 (\<lambda>b cs. cs \<noteq> [] \<and> (\<forall>c \<in> set cs. fst c = initwd w @ ''/'' @ fst b)) bs css"
    by blast
  from cs css show ?case by (intro exI [of _ "cs # css"]) simp
qed

text \<open>
  Claim C5, amended. Started in an absolute directory, the path grouper returns a grouping for
  every path list. Every file of every bucket is the absolute form of an input path that is
  not a directory, and its bucket is keyed by its containing directory relative to the start
  directory; every input path that is not a directory is in a bucket; the bucket keys are
  distinct and no file is in two buckets. The buckets are listed in non-increasing depth
  order: never a bucket after one with fewer separators in its key. The run is the loop over
  the buckets in that order, and when it returns, the calls it made are one non-empty block
  per bucket, in that order, each block made in its bucket's directory.
\<close>

theorem paths_grouped_by_directory_deepest_first:
  assumes "startswith (initwd w) ''/''"
  shows "\<exists>fbd. get_files_by_depth w (initwd w) paths = Inr fbd \<and>
     (\<forall>(dir, files) \<in> set (buckets_in_order fbd). \<forall>f \<in> files.
         \<exists>p \<in> set paths. \<not> isdir w p \<and> f = abspath (initwd w) p \<and>
                          relpath (initwd w) (dirname f) (initwd w) = Inr dir) \<and>
     (\<forall>p \<in> set paths. \<not> isdir w p \<longrightarrow>
         (\<exists>(dir, files) \<in> set (buckets_in_order fbd). abspath (initwd w) p \<in> files)) \<and>
     distinct (map fst (buckets_in_order fbd)) \<and>
     (\<forall>b1 \<in> set (buckets_in_order fbd). \<forall>b2 \<in> set (buckets_in_order fbd).
         \<forall>f. f \<in> snd b1 \<and> f \<in> snd b2 \<longrightarrow> b1 = b2) \<and>
     sorted_wrt (\<lambda>b1 b2. count_sep (fst b2) \<le> count_sep (fst b1)) (buckets_in_order fbd) \<and>
     (\<not> skip w \<and> get_paths_from_args as = (True, paths) \<longrightarrow>
        run w a as = run_buckets w a (buckets_in_order fbd) 0 (init_state w)) \<and>
     (\<not> skip w \<and> get_paths_from_args as = (True, paths) \<and> run w a as = Inr (r, fin) \<longrightarrow>
        (\<exists>css. calls fin = concat css \<and>
           list_all2 (\<lambda>b cs. cs \<noteq> [] \<and> (\<forall>c \<in> set cs. fst c = initwd w @ ''/'' @ fst b))
                     (buckets_in_order fbd) css))"
proof -
  let ?wd = "initwd w"
  have g0: "grouped []" by (simp add: grouped_def)
  have m0: "members [] = {}" by (simp add: members_def)
  from get_files_by_depth_loop_members [OF assms, of w paths "[]"] g0 m0
  obtain fbd where
    r: "get_files_by_depth w ?wd paths = Inr fbd" and
    g: "grouped fbd" and
    m: "members fbd = {(count_sep d, d, abspath ?wd p) | p d.
                p \<in> set paths \<and> \<not> isdir w p \<and>
                relpath ?wd (dirname (abspath ?wd p)) ?wd = Inr d}"
    by (auto simp: get_files_by_depth_def)
  have key: "\<exists>p \<in> set paths. \<not> isdir w p \<and> f = abspath ?wd p \<and>
                          relpath ?wd (dirname f) ?wd = Inr dir"
    if "(dir, files) \<in> set (buckets_in_order fbd)" "f \<in> files" for dir files f
  proof -
    from bucket_members [OF g that] have "(count_sep dir, dir, f) \<in> members fbd" .
    then show ?thesis unfolding m by auto
  qed
  have cover: "\<exists>(dir, files) \<in> set (buckets_in_order fbd). abspath ?wd p \<in> files"
    if "p \<in> set paths" "\<not> isdir w p" for p
  proof -
    from file_dir_total [OF assms] obtain d where
      "relpath ?wd (dirname (abspath ?wd p)) ?wd = Inr d" by blast
    with that have "(count_sep d, d, abspath ?wd p) \<in> members fbd" unfolding m by auto
    from members_bucket [OF this] show ?thesis by auto
  qed
  have dist: "distinct (map fst (buckets_in_order fbd))" by (rule buckets_distinct [OF g])
  have one: "b1 = b2"
    if "b1 \<in> set (buckets_in_order fbd)" "b2 \<in> set (buckets_in_order fbd)"
       "f \<in> snd b1" "f \<in> snd b2" for b1 b2 f
  proof -
    obtain d1 f1 d2 f2 where b: "b1 = (d1, f1)" "b2 = (d2, f2)"
      by (cases b1, cases b2) auto
    from key [of d1 f1 f] key [of d2 f2 f] that b have "d1 = d2" by auto
    with dist that(1,2) b show ?thesis by (auto dest: eq_key_imp_eq_value)
  qed
  have eq: "run w a as = run_buckets w a (buckets_in_order fbd) 0 (init_state w)"
    if "\<not> skip w" "get_paths_from_args as = (True, paths)"
    using that r by (simp add: run_def init_state_def)
  have order: "\<exists>css. calls fin = concat css \<and>
           list_all2 (\<lambda>b cs. cs \<noteq> [] \<and> (\<forall>c \<in> set cs. fst c = initwd w @ ''/'' @ fst b))
                     (buckets_in_order fbd) css"
    if "\<not> skip w" "get_paths_from_args as = (True, paths)" "run w a as = Inr (r, fin)"
  proof -
    from eq [OF that(1,2)] that(3)
    have "run_buckets w a (buckets_in_order fbd) 0 (init_state w) = Inr (r, fin)" by simp
    from run_buckets_calls [OF this] show ?thesis by (simp add: init_state_def)
  qed
  from r key cover dist one buckets_sorted [OF g] eq order show ?thesis
    by (intro exI [of _ fbd]) blast
qed

text \<open>
  Files under \<open>a\<close>, \<open>a/b/c\<close> and \<open>a/b\<close>, and the directory \<open>a\<close> itself: the directory
  is in no bucket, and the run visits the buckets in the order \<open>a/b/c\<close>, \<open>a/b\<close>, \<open>a\<close>.
\<close>

theorem paths_grouped_by_directory_deepest_first_witness:
  "startswith (initwd (tool_world [] [])) ''/'' \<and>
   isdir (tool_world [] []) ''a'' \<and>
   get_files_by_depth (tool_world [] []) ''/w'' [''a/x.py'', ''a/b/c/z.py'', ''a'', ''a/b/y.py'']
     = Inr [(0, [(''a'', {''/w/a/x.py''})]),
            (2, [(''a/b/c'', {''/w/a/b/c/z.py''})]),
            (1, [(''a/b'', {''/w/a/b/y.py''})])] \<and>
   buckets_in_order [(0, [(''a'', {''/w/a/x.py''})]),
                     (2, [(''a/b/c'', {''/w/a/b/c/z.py''})]),
                     (1, [(''a/b'', {''/w/a/b/y.py''})])]
     = [(''a/b/c'', {''/w/a/b/c/z.py''}), (''a/b'', {''/w/a/b/y.py''}), (''a'', {''/w/a/x.py''})] \<and>
   distinct (map fst (buckets_in_order [(0, [(''a'', {''/w/a/x.py''})]),
                     (2, [(''a/b/c'', {''/w/a/b/c/z.py''})]),
                     (1, [(''a/b'', {''/w/a/b/y.py''})])])) \<and>
   run (tool_world [] []) (batch_args ''hook'' False) [''a/x.py'', ''a/b/c/z.py'', ''a'', ''a/b/y.py'']
     = run_buckets (tool_world [] []) (batch_args ''hook'' False)
         [(''a/b/c'', {''/w/a/b/c/z.py''}), (''a/b'', {''/w/a/b/y.py''}), (''a'', {''/w/a/x.py''})]
         0 (init_state (tool_world [] [])) \<and>
   run (tool_world [] []) (batch_args ''hook'' False) [''a/x.py'', ''a/b/c/z.py'', ''a'', ''a/b/y.py'']
     = Inr (0, \<lparr>exec = [], modes = [], cwd = ''/w/a'',
                calls = [(''/w/a/b/c'', ''/usr/bin/ruff'' # show_settings_args),
                         (''/w/a/b'', ''/usr/bin/ruff'' # show_settings_args),
                         (''/w/a'', ''/usr/bin/ruff'' # show_settings_args)],
                recorded = []\<rparr>)"
proof -
  let ?w = "tool_world [] []"
  let ?a = "batch_args ''hook'' False"
  let ?paths = "[''a/x.py'', ''a/b/c/z.py'', ''a'', ''a/b/y.py'']"
  let ?fbd = "[(0::nat, [(''a'', {''/w/a/x.py''})]),
               (2, [(''a/b/c'', {''/w/a/b/c/z.py''})]),
               (1, [(''a/b'', {''/w/a/b/y.py''})])]"
  have h: "startswith (initwd ?w) ''/''" by code_simp
  have i: "initwd ?w = ''/w''" by code_simp
  have d: "isdir ?w ''a''" by code_simp
  have s: "\<not> skip ?w" by code_simp
  have p: "get_paths_from_args ?paths = (True, ?paths)" by code_simp
  have r: "get_files_by_depth ?w ''/w'' ?paths = Inr ?fbd" by code_simp
  have o: "buckets_in_order ?fbd
     = [(''a/b/c'', {''/w/a/b/c/z.py''}), (''a/b'', {''/w/a/b/y.py''}), (''a'', {''/w/a/x.py''})]"
    by code_simp
  have e: "run ?w ?a ?paths
     = Inr (0, \<lparr>exec = [], modes = [], cwd = ''/w/a'',
                calls = [(''/w/a/b/c'', ''/usr/bin/ruff'' # show_settings_args),
                         (''/w/a/b'', ''/usr/bin/ruff'' # show_settings_args),
                         (''/w/a'', ''/usr/bin/ruff'' # show_settings_args)],
                recorded = []\<rparr>)" by code_simp
  from paths_grouped_by_directory_deepest_first [OF h, of ?paths ?paths ?a] r s p
  have "distinct (map fst (buckets_in_order ?fbd)) \<and>
        run ?w ?a ?paths = run_buckets ?w ?a (buckets_in_order ?fbd) 0 (init_state ?w)"
    unfolding i by auto
  with h d r o e show ?thesis by simp
qed

text \<open>
  Claim C5 as stated fails on the strictly decreasing order: the directories \<open>a\<close> and \<open>b\<close> have the
  same depth and are visited one after the other.
\<close>

theorem equal_depth_buckets_counterexample:
  "get_files_by_depth (tool_world [] []) ''/w'' [''a/x.py'', ''b/y.py'']
     = Inr [(0, [(''a'', {''/w/a/x.py''}), (''b'', {''/w/b/y.py''})])] \<and>
   buckets_in_order [(0, [(''a'', {''/w/a/x.py''}), (''b'', {''/w/b/y.py''})])]
     = [(''a'', {''/w/a/x.py''}), (''b'', {''/w/b/y.py''})] \<and>
   count_sep ''a'' = 0 \<and> count_sep ''b'' = 0 \<and>
   \<not> sorted_wrt (>) (map (count_sep \<circ> fst)
                       (buckets_in_order [(0, [(''a'', {''/w/a/x.py''}), (''b'', {''/w/b/y.py''})])]))"
  by code_simp

end
